theory Spec2Isabelle
  imports Complex_Main "HOL-Library.Word"
begin

unbundle bit_operations_syntax

text \<open>
  A model of the PNG decoder pngjs: the class \<open>PNG\<close> with its setters and \<open>getPixel\<close>,
  and the class \<open>PNGReader\<close> with the chunk parser, the five inverse scanline filters
  and \<open>parse\<close>. The definitions follow the TypeScript source function by function; the
  theorems after them are about those definitions.
\<close>

section \<open>Values of the source language\<close>

text \<open>
  The program is TypeScript. Its typed arrays (\<open>Uint8Array\<close>, \<open>Buffer\<close>) hold bytes and
  are modelled as lists of 8-bit words. Its numbers are modelled exactly: indices and
  sizes as rationals (the source divides by 8, so an index can be fractional), sample
  arithmetic as integers. The exact model agrees with the IEEE doubles of the source
  while every value stays below \<open>2^53\<close>. A number that is \<open>undefined\<close> or \<open>NaN\<close>
  is \<open>None\<close>: reading a typed array outside its range, or at an index that is not a
  natural number, yields \<open>undefined\<close>, and arithmetic on \<open>undefined\<close> yields \<open>NaN\<close>.
\<close>

type_synonym byte = "8 word"

type_synonym number = "int option"

datatype error =
    UnexpectedEOF             \<comment> \<open>'Unexpectedly reached end of file'\<close>
  | PointerNotAtStart         \<comment> \<open>'file pointer should be at 0 to read the header'\<close>
  | BadSignature              \<comment> \<open>'invalid PNGReader file (bad signature)'\<close>
  | BadChunkLength int        \<comment> \<open>'Bad chunk length ' + (0xffffffff \& length)\<close>
  | InvalidColorType          \<comment> \<open>'invalid color type'\<close>
  | InvalidCompressionMethod  \<comment> \<open>'invalid compression method ' + compressionMethod\<close>
  | InvalidFilterMethod       \<comment> \<open>'invalid filter method ' + filterMethod\<close>
  | InvalidInterlaceMethod    \<comment> \<open>'invalid interlace method ' + interlaceMethod\<close>
  | BadPLTELength             \<comment> \<open>'incorrect PLTE chunk length'\<close>
  | PaletteTooLarge           \<comment> \<open>'palette has more colors than 2^bitdepth'\<close>
  | UnknownFilter             \<comment> \<open>'unknown filtered scanline'\<close>
  | Adam7NotImplemented       \<comment> \<open>'Adam7 interlacing is not implemented yet'\<close>
  | PixelDataEmpty            \<comment> \<open>'pixel data is empty'\<close>
  | OutOfBound                \<comment> \<open>'x,y position out of bound'\<close>
  | RangeError                \<comment> \<open>thrown by \<open>DataView\<close> and \<open>Buffer.alloc\<close>\<close>
  | InflateError              \<comment> \<open>the error zlib hands to the callback of \<open>inflate\<close>\<close>

text \<open>
  \<open>arrayIndex q\<close> is the element a numeric property key \<open>q\<close> names in a typed array:
  only a natural number names one.
\<close>

definition arrayIndex :: "rat \<Rightarrow> nat option" where
  "arrayIndex q = (if 0 \<le> q \<and> of_int \<lfloor>q\<rfloor> = q then Some (nat \<lfloor>q\<rfloor>) else None)"

text \<open>\<open>xs[q]\<close> read: \<open>undefined\<close> where there is no such element.\<close>

definition load :: "byte list \<Rightarrow> rat \<Rightarrow> number" where
  "load xs q =
     (case arrayIndex q of
        None \<Rightarrow> None
      | Some k \<Rightarrow> if k < length xs then Some (uint (xs ! k)) else None)"

text \<open>\<open>xs[v]\<close> read at an index that is itself a number of the program.\<close>

definition loadAt :: "byte list \<Rightarrow> number \<Rightarrow> number" where
  "loadAt xs v = (case v of None \<Rightarrow> None | Some k \<Rightarrow> load xs (of_int k))"

text \<open>
  \<open>xs[q] = v\<close> write: the value is converted to a byte (\<open>undefined\<close> and \<open>NaN\<close> to 0,
  an integer modulo 256); a write where there is no such element is ignored.
\<close>

definition toUint8 :: "number \<Rightarrow> byte" where
  "toUint8 v = (case v of None \<Rightarrow> 0 | Some k \<Rightarrow> word_of_int k)"

definition store :: "byte list \<Rightarrow> rat \<Rightarrow> number \<Rightarrow> byte list" where
  "store xs q v =
     (case arrayIndex q of
        None \<Rightarrow> xs
      | Some k \<Rightarrow> if k < length xs then xs[k := toUint8 v] else xs)"

text \<open>Arithmetic of the source on numbers that may be \<open>NaN\<close>.\<close>

definition nadd :: "number \<Rightarrow> number \<Rightarrow> number" where
  "nadd a b = (case (a, b) of (Some x, Some y) \<Rightarrow> Some (x + y) | _ \<Rightarrow> None)"

definition nsub :: "number \<Rightarrow> number \<Rightarrow> number" where
  "nsub a b = (case (a, b) of (Some x, Some y) \<Rightarrow> Some (x - y) | _ \<Rightarrow> None)"

definition nmul :: "number \<Rightarrow> number \<Rightarrow> number" where
  "nmul a b = (case (a, b) of (Some x, Some y) \<Rightarrow> Some (x * y) | _ \<Rightarrow> None)"

definition nabs :: "number \<Rightarrow> number" where
  "nabs a = (case a of Some x \<Rightarrow> Some \<bar>x\<bar> | None \<Rightarrow> None)"

text \<open>\<open>a <= b\<close>: false when either side is \<open>NaN\<close>.\<close>

definition nle :: "number \<Rightarrow> number \<Rightarrow> bool" where
  "nle a b = (case (a, b) of (Some x, Some y) \<Rightarrow> x \<le> y | _ \<Rightarrow> False)"

text \<open>The bit operators convert their operand to a signed 32-bit integer, \<open>NaN\<close> to 0.\<close>

definition toInt32 :: "number \<Rightarrow> int" where
  "toInt32 a = (case a of None \<Rightarrow> 0 | Some x \<Rightarrow> (x + 2 ^ 31) mod 2 ^ 32 - 2 ^ 31)"

definition shr1 :: "number \<Rightarrow> number" where
  "shr1 a = Some (toInt32 a div 2)"

definition and255 :: "number \<Rightarrow> number" where
  "and255 a = Some (toInt32 a mod 256)"

section \<open>The class PNG\<close>

text \<open>
  The fields are those of the class. \<open>pixels\<close> and \<open>trns\<close> are tested against
  \<open>null\<close> by \<open>getPixel\<close>, so they are optional here; the class initialises both with
  an empty array, which is an object and therefore neither \<open>null\<close> nor falsy.
\<close>

record PNG =
  width :: nat
  height :: nat
  bitDepth :: nat
  colorType :: nat
  compressionMethod :: nat
  filterMethod :: nat
  interlaceMethod :: nat
  colors :: nat
  alpha :: bool
  palette :: "byte list"
  pixels :: "byte list option"
  trns :: "byte list option"

definition newPNG :: PNG where
  "newPNG = \<lparr> width = 0, height = 0, bitDepth = 0, colorType = 0,
              compressionMethod = 0, filterMethod = 0, interlaceMethod = 0,
              colors = 0, alpha = False, palette = [],
              pixels = Some [], trns = Some [] \<rparr>"

text \<open>
  A setter returns the error it throws, if any, together with the object as the call
  leaves it.
\<close>

definition setWidth :: "nat \<Rightarrow> PNG \<Rightarrow> error option \<times> PNG" where
  "setWidth w p = (None, p\<lparr>width := w\<rparr>)"

definition setHeight :: "nat \<Rightarrow> PNG \<Rightarrow> error option \<times> PNG" where
  "setHeight h p = (None, p\<lparr>height := h\<rparr>)"

definition setBitDepth :: "nat \<Rightarrow> PNG \<Rightarrow> error option \<times> PNG" where
  "setBitDepth d p = (None, p\<lparr>bitDepth := d\<rparr>)"

text \<open>
  The \<open>switch\<close> of \<open>setColorType\<close>: the locals \<open>colors\<close> and \<open>alpha\<close> after it, or
  nothing where the default case throws.
\<close>

definition colorSwitch :: "nat \<Rightarrow> (nat \<times> bool) option" where
  "colorSwitch c =
     (if c = 0 then Some (1, False)
      else if c = 2 then Some (3, False)
      else if c = 3 then Some (1, False)
      else if c = 4 then Some (2, True)
      else if c = 6 then Some (4, True)
      else None)"

definition setColorType :: "nat \<Rightarrow> PNG \<Rightarrow> error option \<times> PNG" where
  "setColorType c p =
     (case colorSwitch c of
        None \<Rightarrow> (Some InvalidColorType, p)
      | Some (cs, al) \<Rightarrow> (None, p\<lparr>colors := cs, alpha := al, colorType := c\<rparr>))"

definition setCompressionMethod :: "nat \<Rightarrow> PNG \<Rightarrow> error option \<times> PNG" where
  "setCompressionMethod m p =
     (if m \<noteq> 0 then (Some InvalidCompressionMethod, p)
      else (None, p\<lparr>compressionMethod := m\<rparr>))"

definition setFilterMethod :: "nat \<Rightarrow> PNG \<Rightarrow> error option \<times> PNG" where
  "setFilterMethod m p =
     (if m \<noteq> 0 then (Some InvalidFilterMethod, p)
      else (None, p\<lparr>filterMethod := m\<rparr>))"

definition setInterlaceMethod :: "nat \<Rightarrow> PNG \<Rightarrow> error option \<times> PNG" where
  "setInterlaceMethod m p =
     (if m \<noteq> 0 \<and> m \<noteq> 1 then (Some InvalidInterlaceMethod, p)
      else (None, p\<lparr>interlaceMethod := m\<rparr>))"

definition setTRNS :: "byte list \<Rightarrow> PNG \<Rightarrow> error option \<times> PNG" where
  "setTRNS t p = (None, p\<lparr>trns := Some t\<rparr>)"

definition setPalette :: "byte list \<Rightarrow> PNG \<Rightarrow> error option \<times> PNG" where
  "setPalette pal p =
     (if length pal mod 3 \<noteq> 0 then (Some BadPLTELength, p)
      else if length pal > 2 ^ bitDepth p * 3 then (Some PaletteTooLarge, p)
      else (None, p\<lparr>palette := pal\<rparr>))"

definition setPixels :: "byte list \<Rightarrow> PNG \<Rightarrow> error option \<times> PNG" where
  "setPixels px p = (None, p\<lparr>pixels := Some px\<rparr>)"

text \<open>
  \<open>getPixel\<close>. The coordinates are natural numbers, as the loops of \<open>getRGBA8Array\<close>
  and of the tests supply them. \<open>getPixelOffset\<close> is the local \<open>i\<close>, computed as the
  source computes it, with a division by 8 that need not come out whole. The result is
  the array of four values the source returns; each may be \<open>undefined\<close>.
\<close>

definition getPixelOffset :: "PNG \<Rightarrow> nat \<Rightarrow> nat \<Rightarrow> rat" where
  "getPixelOffset p x y = (of_nat (colors p * bitDepth p) / 8) * of_nat (y * width p + x)"

definition getPixel :: "PNG \<Rightarrow> nat \<Rightarrow> nat \<Rightarrow> error + (number \<times> number \<times> number \<times> number)" where
  "getPixel p x y =
     (case pixels p of
        None \<Rightarrow> Inl PixelDataEmpty
      | Some px \<Rightarrow>
          if x \<ge> width p \<or> y \<ge> height p then Inl OutOfBound
          else
            let i = getPixelOffset p x y in
            if colorType p = 0 then Inr (load px i, load px i, load px i, Some 255)
            else if colorType p = 2 then Inr (load px i, load px (i + 1), load px (i + 2), Some 255)
            else if colorType p = 3 then
              let a = (case trns p of
                         None \<Rightarrow> Some 255
                       | Some t \<Rightarrow> if loadAt t (load px i) \<noteq> None then loadAt t (load px i)
                                   else Some 255)
              in Inr (loadAt (palette p) (nadd (nmul (load px i) (Some 3)) (Some 0)),
                      loadAt (palette p) (nadd (nmul (load px i) (Some 3)) (Some 1)),
                      loadAt (palette p) (nadd (nmul (load px i) (Some 3)) (Some 2)),
                      a)
            else if colorType p = 4 then Inr (load px i, load px i, load px i, load px (i + 1))
            else if colorType p = 6 then
              Inr (load px i, load px (i + 1), load px (i + 2), load px (i + 3))
            else Inl InvalidColorType)"

section \<open>The Paeth predictor\<close>

text \<open>
  The predictor as \<open>unFilterPaeth\<close> computes it inside its last loop, from the locals
  \<open>a\<close>, \<open>b\<close> and \<open>c\<close> to the local \<open>pr\<close>.
\<close>

definition paethPredictor :: "number \<Rightarrow> number \<Rightarrow> number \<Rightarrow> number" where
  "paethPredictor a b c =
     (let p = nsub (nadd a b) c;
          pa = nabs (nsub p a);
          pb = nabs (nsub p b);
          pc = nabs (nsub p c)
      in if nle pa pb \<and> nle pa pc then a
         else if nle pb pc then b
         else c)"

section \<open>Loops and slices\<close>

text \<open>
  \<open>for (; i < to; i++) body\<close>, started at \<open>i\<close>: the counter and the state when the loop
  is left. The counter is a natural number; the bound is any number.
\<close>

function forLoop :: "nat \<Rightarrow> rat \<Rightarrow> (nat \<Rightarrow> 's \<Rightarrow> 's) \<Rightarrow> 's \<Rightarrow> nat \<times> 's" where
  "forLoop i to body s =
     (if of_nat i < to then forLoop (Suc i) to body (body i s) else (i, s))"
  by pat_completeness auto
termination
proof (relation "measure (\<lambda>(i, to, body, s). nat \<lceil>to\<rceil> - i)")
  show "wf (measure (\<lambda>(i, to, body, s). nat \<lceil>to :: rat\<rceil> - i))"
    by simp
next
  fix i :: nat and to :: rat and body :: "nat \<Rightarrow> 's \<Rightarrow> 's" and s :: 's
  assume "of_nat i < to"
  then have "int i < \<lceil>to\<rceil>"
    by (simp add: less_ceiling_iff)
  then show "((Suc i, to, body, body i s), (i, to, body, s))
               \<in> measure (\<lambda>(i, to, body, s). nat \<lceil>to\<rceil> - i)"
    by simp
qed

declare forLoop.simps [simp del]

text \<open>
  \<open>xs.slice(s, e)\<close>, here \<open>sliceArray\<close>: both arguments are truncated to integers,
  a negative one counts from the end, and both are clamped to the array.
\<close>

definition relativeIndex :: "nat \<Rightarrow> rat \<Rightarrow> nat" where
  "relativeIndex n q =
     (let k = (if q < 0 then \<lceil>q\<rceil> else \<lfloor>q\<rfloor>)
      in if k < 0 then nat (max 0 (int n + k)) else min (nat k) n)"

definition sliceArray :: "'a list \<Rightarrow> rat \<Rightarrow> rat \<Rightarrow> 'a list" where
  "sliceArray xs s e =
     (let a = relativeIndex (length xs) s; b = relativeIndex (length xs) e
      in take (b - a) (drop a xs))"

section \<open>The inverse filters\<close>

text \<open>
  Each function returns the buffer \<open>pixels\<close> as the call leaves it. The parameter \<open>of\<close>
  of the source is \<open>ofs\<close> and \<open>length\<close> is \<open>len\<close>.
\<close>

definition unFilterNone :: "byte list \<Rightarrow> byte list \<Rightarrow> rat \<Rightarrow> rat \<Rightarrow> rat \<Rightarrow> byte list" where
  "unFilterNone scanline px bpp ofs len =
     snd (forLoop 0 len (\<lambda>i px. store px (ofs + of_nat i) (load scanline (of_nat i))) px)"

definition unFilterSub :: "byte list \<Rightarrow> byte list \<Rightarrow> rat \<Rightarrow> rat \<Rightarrow> rat \<Rightarrow> byte list" where
  "unFilterSub scanline px bpp ofs len =
     (let (i, px) = forLoop 0 bpp
            (\<lambda>i px. store px (ofs + of_nat i) (load scanline (of_nat i))) px;
          (i, px) = forLoop i len
            (\<lambda>i px. store px (ofs + of_nat i)
               (and255 (nadd (load scanline (of_nat i)) (load px (ofs + of_nat i - bpp))))) px
      in px)"

definition unFilterUp :: "byte list \<Rightarrow> byte list \<Rightarrow> rat \<Rightarrow> rat \<Rightarrow> rat \<Rightarrow> byte list" where
  "unFilterUp scanline px bpp ofs len =
     (if ofs - len < 0 then
        snd (forLoop 0 len (\<lambda>i px. store px (ofs + of_nat i) (load scanline (of_nat i))) px)
      else
        snd (forLoop 0 len
          (\<lambda>i px. let byte = load scanline (of_nat i);
                       prev = load px (ofs + of_nat i - len)
                   in store px (ofs + of_nat i) (and255 (nadd byte prev))) px))"

definition unFilterAverage :: "byte list \<Rightarrow> byte list \<Rightarrow> rat \<Rightarrow> rat \<Rightarrow> rat \<Rightarrow> byte list" where
  "unFilterAverage scanline px bpp ofs len =
     (if ofs - len < 0 then
        (let (i, px) = forLoop 0 bpp
               (\<lambda>i px. store px (ofs + of_nat i) (load scanline (of_nat i))) px;
             (i, px) = forLoop i len
               (\<lambda>i px. store px (ofs + of_nat i)
                  (and255 (nadd (load scanline (of_nat i))
                                (shr1 (load px (ofs + of_nat i - bpp)))))) px
         in px)
      else
        (let (i, px) = forLoop 0 bpp
               (\<lambda>i px. store px (ofs + of_nat i)
                  (and255 (nadd (load scanline (of_nat i))
                                (shr1 (load px (ofs - len + of_nat i)))))) px;
             (i, px) = forLoop i len
               (\<lambda>i px. let byte = load scanline (of_nat i);
                            prev = load px (ofs + of_nat i - bpp);
                            prior = load px (ofs + of_nat i - len)
                        in store px (ofs + of_nat i)
                             (and255 (nadd byte (shr1 (nadd prev prior))))) px
         in px))"

definition unFilterPaeth :: "byte list \<Rightarrow> byte list \<Rightarrow> rat \<Rightarrow> rat \<Rightarrow> rat \<Rightarrow> byte list" where
  "unFilterPaeth scanline px bpp ofs len =
     (if ofs - len < 0 then
        (let (i, px) = forLoop 0 bpp
               (\<lambda>i px. store px (ofs + of_nat i) (load scanline (of_nat i))) px;
             (i, px) = forLoop i len
               (\<lambda>i px. store px (ofs + of_nat i)
                  (and255 (nadd (load scanline (of_nat i)) (load px (ofs + of_nat i - bpp))))) px
         in px)
      else
        (let (i, px) = forLoop 0 bpp
               (\<lambda>i px. store px (ofs + of_nat i)
                  (and255 (nadd (load scanline (of_nat i)) (load px (ofs + of_nat i - len))))) px;
             (i, px) = forLoop i len
               (\<lambda>i px. let raw = load scanline (of_nat i);
                            a = load px (ofs + of_nat i - bpp);
                            b = load px (ofs + of_nat i - len);
                            c = load px (ofs + of_nat i - len - bpp);
                            pr = paethPredictor a b c
                        in store px (ofs + of_nat i) (and255 (nadd raw pr))) px
         in px))"

section \<open>Defiltering the scanlines\<close>

text \<open>The local \<open>bpp\<close> of \<open>interlaceNone\<close>.\<close>

definition bytesPerPixel :: "PNG \<Rightarrow> rat" where
  "bytesPerPixel p = max 1 (of_nat (colors p * bitDepth p) / 8)"

text \<open>
  The \<open>switch\<close> on the filter type byte: the inverse filter it selects, or nothing where the
  default case throws (also when the byte read is \<open>undefined\<close>).
\<close>

definition filterSwitch ::
  "number \<Rightarrow> (byte list \<Rightarrow> byte list \<Rightarrow> rat \<Rightarrow> rat \<Rightarrow> rat \<Rightarrow> byte list) option" where
  "filterSwitch t =
     (if t = Some 0 then Some unFilterNone
      else if t = Some 1 then Some unFilterSub
      else if t = Some 2 then Some unFilterUp
      else if t = Some 3 then Some unFilterAverage
      else if t = Some 4 then Some unFilterPaeth
      else None)"

text \<open>
  The loop of \<open>interlaceNone\<close> over the inflated data, from the position \<open>i\<close> with the
  output offset \<open>offset\<close>. \<open>bpp\<close> and \<open>cpr\<close> are the constants the source computes from
  the header before the loop.
\<close>

function interlaceRows :: "PNG \<Rightarrow> byte list \<Rightarrow> rat \<Rightarrow> rat \<Rightarrow> byte list \<Rightarrow> error + byte list" where
  "interlaceRows p data i offset px =
     (let bpp = bytesPerPixel p;
          cpr = bpp * of_nat (width p)
      in if i < of_nat (length data) then
           (let scanline = sliceArray data (i + 1) (i + cpr + 1)
            in case filterSwitch (load data i) of
                 None \<Rightarrow> Inl UnknownFilter
               | Some unFilter \<Rightarrow>
                   interlaceRows p data (i + (cpr + 1)) (offset + cpr)
                     (unFilter scanline px bpp offset cpr))
         else Inr px)"
  by pat_completeness auto
termination
proof (relation "measure (\<lambda>(p, data, i, offset, px). nat \<lceil>of_nat (length data) - i\<rceil>)")
  show "wf (measure (\<lambda>(p, data, i, offset, px). nat \<lceil>of_nat (length data) - (i :: rat)\<rceil>))"
    by simp
next
  fix p :: PNG and data :: "byte list" and i offset :: rat and px :: "byte list"
    and bpp cpr :: rat and scanline :: "byte list"
    and unFilter :: "byte list \<Rightarrow> byte list \<Rightarrow> rat \<Rightarrow> rat \<Rightarrow> rat \<Rightarrow> byte list"
  assume bpp: "bpp = bytesPerPixel p" and cpr: "cpr = bpp * of_nat (width p)"
    and less: "i < of_nat (length data)"
  have "0 \<le> cpr"
    by (simp add: bpp cpr bytesPerPixel_def)
  then have "of_nat (length data) - (i + (cpr + 1)) \<le> of_nat (length data) - i - 1"
    by simp
  then have "\<lceil>of_nat (length data) - (i + (cpr + 1))\<rceil> \<le> \<lceil>of_nat (length data) - i - 1\<rceil>"
    by (rule ceiling_mono)
  moreover have "0 < \<lceil>of_nat (length data) - i\<rceil>"
    using less by simp
  ultimately show "((p, data, i + (cpr + 1), offset + cpr, unFilter scanline px bpp offset cpr),
                    (p, data, i, offset, px))
                   \<in> measure (\<lambda>(p, data, i, offset, px). nat \<lceil>of_nat (length data) - i\<rceil>)"
    by simp
qed

declare interlaceRows.simps [simp del]

section \<open>Exceptions\<close>

text \<open>
  A call whose exception ends the caller. \<open>ebind\<close> continues with the value of a call
  that returned, \<open>thrown\<close> reads the outcome of a call that is modelled with the state
  it leaves (a setter, \<open>decodePixels\<close>), \<open>definedOr\<close> names the error the next call
  throws when it is handed \<open>undefined\<close>.
\<close>

definition ebind :: "error + 'a \<Rightarrow> ('a \<Rightarrow> error + 'b) \<Rightarrow> error + 'b" where
  "ebind m f = (case m of Inl e \<Rightarrow> Inl e | Inr x \<Rightarrow> f x)"

definition thrown :: "error option \<times> 'a \<Rightarrow> error + 'a" where
  "thrown res = (case fst res of Some e \<Rightarrow> Inl e | None \<Rightarrow> Inr (snd res))"

definition definedOr :: "error \<Rightarrow> number \<Rightarrow> error + int" where
  "definedOr e v = (case v of None \<Rightarrow> Inl e | Some x \<Rightarrow> Inr x)"

section \<open>The class PNGReader\<close>

text \<open>
  The reader. The constructor turns a string or an \<open>ArrayBuffer\<close> into bytes and keeps a
  \<open>Uint8Array\<close> as it is; the model starts from the bytes. The field \<open>i\<close> of the
  source, the current pointer, is \<open>pos\<close>; \<open>header\<close> is unset until \<open>decodeHeader\<close>
  has run.
\<close>

record PNGReader =
  bytes :: "byte list"
  pos :: nat
  png :: PNG
  dataChunks :: "byte list list"
  header :: "byte list option"

definition newPNGReader :: "byte list \<Rightarrow> PNGReader" where
  "newPNGReader bs = \<lparr> bytes = bs, pos = 0, png = newPNG, dataChunks = [], header = None \<rparr>"

definition equalBytes :: "byte list \<Rightarrow> int list \<Rightarrow> bool" where
  "equalBytes a b = list_all2 (\<lambda>x y. uint x = y) a b"

text \<open>
  \<open>readUInt32\<close>: a \<open>DataView\<close> of four bytes from \<open>offset\<close>, read as an unsigned
  big-endian number. The buffer is a copy that \<open>slice\<close> has made of a part of a
  \<open>Uint8Array\<close>, so the view cannot be made when fewer than four bytes follow
  \<open>offset\<close>. Where the reader is given a Node \<open>Buffer\<close>, \<open>slice\<close> makes a view
  instead, and the read runs on into the bytes behind a chunk that is too short; that
  case is not modelled.
\<close>

definition readUInt32 :: "byte list \<Rightarrow> nat \<Rightarrow> error + int" where
  "readUInt32 buffer offset =
     (if offset + 4 > length buffer then Inl RangeError
      else Inr (uint (buffer ! offset) * 2 ^ 24 + uint (buffer ! (offset + 1)) * 2 ^ 16
                + uint (buffer ! (offset + 2)) * 2 ^ 8 + uint (buffer ! (offset + 3))))"

definition readUInt8 :: "byte list \<Rightarrow> nat \<Rightarrow> number" where
  "readUInt8 buffer offset = load buffer (of_nat offset)"

definition bufferToString :: "byte list \<Rightarrow> string" where
  "bufferToString buffer = map (\<lambda>b. char_of (unat b)) buffer"

definition readBytes :: "nat \<Rightarrow> PNGReader \<Rightarrow> error + (byte list \<times> PNGReader)" where
  "readBytes n r =
     (let e = pos r + n
      in if e > length (bytes r) then Inl UnexpectedEOF
         else Inr (sliceArray (bytes r) (of_nat (pos r)) (of_nat e), r\<lparr>pos := e\<rparr>))"

definition decodeHeader :: "PNGReader \<Rightarrow> error + PNGReader" where
  "decodeHeader r =
     (if pos r \<noteq> 0 then Inl PointerNotAtStart
      else case readBytes 8 r of
             Inl e \<Rightarrow> Inl e
           | Inr (h, r) \<Rightarrow>
               if \<not> equalBytes h [0x89, 0x50, 0x4e, 0x47, 0x0d, 0x0a, 0x1a, 0x0a]
               then Inl BadSignature
               else Inr (r\<lparr>header := Some h\<rparr>))"

text \<open>
  \<open>decodeIHDR\<close>. A field read beyond the chunk is \<open>undefined\<close>. The setters are modelled
  on numbers; an \<open>undefined\<close> bit depth is stored by the source and is followed by an
  \<open>undefined\<close> colour type, which the \<open>switch\<close> of \<open>setColorType\<close> rejects, and an
  \<open>undefined\<close> method differs from 0 and 1 and is rejected by its setter.
\<close>

definition decodeIHDR :: "byte list \<Rightarrow> PNGReader \<Rightarrow> error + PNGReader" where
  "decodeIHDR chunk r =
     ebind (readUInt32 chunk 0) (\<lambda>w.
     ebind (thrown (setWidth (nat w) (png r))) (\<lambda>p.
     ebind (readUInt32 chunk 4) (\<lambda>h.
     ebind (thrown (setHeight (nat h) p)) (\<lambda>p.
     ebind (definedOr InvalidColorType (readUInt8 chunk 8)) (\<lambda>d.
     ebind (thrown (setBitDepth (nat d) p)) (\<lambda>p.
     ebind (definedOr InvalidColorType (readUInt8 chunk 9)) (\<lambda>c.
     ebind (thrown (setColorType (nat c) p)) (\<lambda>p.
     ebind (definedOr InvalidCompressionMethod (readUInt8 chunk 10)) (\<lambda>m.
     ebind (thrown (setCompressionMethod (nat m) p)) (\<lambda>p.
     ebind (definedOr InvalidFilterMethod (readUInt8 chunk 11)) (\<lambda>m.
     ebind (thrown (setFilterMethod (nat m) p)) (\<lambda>p.
     ebind (definedOr InvalidInterlaceMethod (readUInt8 chunk 12)) (\<lambda>m.
     ebind (thrown (setInterlaceMethod (nat m) p)) (\<lambda>p.
     Inr (r\<lparr>png := p\<rparr>)))))))))))))))"

definition decodePLTE :: "byte list \<Rightarrow> PNGReader \<Rightarrow> error + PNGReader" where
  "decodePLTE chunk r =
     ebind (thrown (setPalette chunk (png r))) (\<lambda>p. Inr (r\<lparr>png := p\<rparr>))"

definition decodeIDAT :: "byte list \<Rightarrow> PNGReader \<Rightarrow> error + PNGReader" where
  "decodeIDAT chunk r = Inr (r\<lparr>dataChunks := dataChunks r @ [chunk]\<rparr>)"

definition decodeTRNS :: "byte list \<Rightarrow> PNGReader \<Rightarrow> error + PNGReader" where
  "decodeTRNS chunk r =
     ebind (thrown (setTRNS chunk (png r))) (\<lambda>p. Inr (r\<lparr>png := p\<rparr>))"

definition decodeIEND :: "byte list \<Rightarrow> PNGReader \<Rightarrow> error + PNGReader" where
  "decodeIEND chunk r = Inr r"

text \<open>The \<open>switch\<close> of \<open>decodeChunk\<close> on the chunk type; it has no default case.\<close>

definition chunkSwitch :: "string \<Rightarrow> byte list \<Rightarrow> PNGReader \<Rightarrow> error + PNGReader" where
  "chunkSwitch type chunk r =
     (if type = ''IHDR'' then decodeIHDR chunk r
      else if type = ''PLTE'' then decodePLTE chunk r
      else if type = ''IDAT'' then decodeIDAT chunk r
      else if type = ''tRNS'' then decodeTRNS chunk r
      else if type = ''IEND'' then decodeIEND chunk r
      else Inr r)"

text \<open>\<open>decodeChunk\<close> returns the chunk type it has read.\<close>

definition decodeChunk :: "PNGReader \<Rightarrow> error + (string \<times> PNGReader)" where
  "decodeChunk r =
     ebind (readBytes 4 r) (\<lambda>(lb, r).
     ebind (readUInt32 lb 0) (\<lambda>len.
     if len < 0 then Inl (BadChunkLength (toInt32 (Some len)))
     else
     ebind (readBytes 4 r) (\<lambda>(tb, r).
     let type = bufferToString tb in
     ebind (readBytes (nat len) r) (\<lambda>(chunk, r).
     ebind (readBytes 4 r) (\<lambda>(crc, r).
     ebind (chunkSwitch type chunk r) (\<lambda>r.
     Inr (type, r)))))))"

text \<open>
  \<open>interlaceNone\<close>, \<open>interlaceAdam7\<close> and \<open>decodePixels\<close> return, as the setters do, the
  error they throw, if any, together with the reader as the call leaves it, so that what
  a failed call has done to the reader and its \<open>PNG\<close> can be read off.

  \<open>interlaceNone\<close> defilters into a buffer of its own and hands it to \<open>setPixels\<close> in
  its last statement; when a scanline has an unknown filter type it throws before that.
  \<open>Buffer.alloc\<close> truncates its size to a whole number of bytes and fills the buffer
  with zeros; it is taken to succeed (the limit on the size of a buffer is a property of
  the platform and is not modelled).
\<close>

definition bufferAlloc :: "rat \<Rightarrow> byte list" where
  "bufferAlloc n = replicate (nat \<lfloor>n\<rfloor>) 0"

definition interlaceNone :: "byte list \<Rightarrow> PNGReader \<Rightarrow> error option \<times> PNGReader" where
  "interlaceNone data r =
     (let bpp = bytesPerPixel (png r);
          px = bufferAlloc (bpp * of_nat (width (png r)) * of_nat (height (png r)))
      in case interlaceRows (png r) data 0 0 px of
           Inl e \<Rightarrow> (Some e, r)
         | Inr px \<Rightarrow> (fst (setPixels px (png r)), r\<lparr>png := snd (setPixels px (png r))\<rparr>))"

definition interlaceAdam7 :: "byte list \<Rightarrow> PNGReader \<Rightarrow> error option \<times> PNGReader" where
  "interlaceAdam7 data r = (Some Adam7NotImplemented, r)"

text \<open>
  \<open>decodePixels\<close>. zlib is not part of the repository: the decompressor is a parameter,
  a function from the compressed bytes to the inflated bytes, or to nothing where zlib
  reports an error. The two copying loops concatenate the data chunks in order.
\<close>

definition decodePixels ::
  "(byte list \<Rightarrow> byte list option) \<Rightarrow> PNGReader \<Rightarrow> error option \<times> PNGReader" where
  "decodePixels inflate r =
     (let data = concat (dataChunks r)
      in case inflate data of
           None \<Rightarrow> (Some InflateError, r)
         | Some inflated \<Rightarrow>
             if interlaceMethod (png r) = 0 then interlaceNone inflated r
             else interlaceAdam7 inflated r)"

text \<open>The \<open>while\<close> loop of \<open>parse\<close>.\<close>

function chunkLoop :: "bool \<Rightarrow> PNGReader \<Rightarrow> error + PNGReader" where
  "chunkLoop readData r =
     (if pos r < length (bytes r) then
        (case decodeChunk r of
           Inl e \<Rightarrow> Inl e
         | Inr (type, r') \<Rightarrow>
             if (type = ''IHDR'' \<and> readData = False) \<or> type = ''IEND'' then Inr r'
             else chunkLoop readData r')
      else Inr r)"
  by pat_completeness auto
termination
proof (relation "measure (\<lambda>(readData, r). length (bytes r) - pos r)")
  show "wf (measure (\<lambda>(readData, r). length (bytes r) - pos r))"
    by simp
next
  fix readData :: bool and r r' :: PNGReader and x :: "string \<times> PNGReader" and type :: string
  assume less: "pos r < length (bytes r)"
    and dec: "decodeChunk r = Inr x" and x: "(type, r') = x"
  have rb: "bytes b = bytes a \<and> pos b = pos a + n"
    if "readBytes n a = Inr (c, b)" for n a b c
    using that by (auto simp: readBytes_def Let_def split: if_splits)
  have sw: "bytes b = bytes a \<and> pos b = pos a"
    if "chunkSwitch t c a = Inr b" for t c a b
    using that
    by (auto simp: chunkSwitch_def decodeIHDR_def decodePLTE_def decodeIDAT_def decodeTRNS_def
                   decodeIEND_def ebind_def
             split: if_splits sum.splits)
  from dec x have "bytes r' = bytes r \<and> pos r < pos r'"
    by (auto simp: decodeChunk_def ebind_def Let_def split: sum.splits prod.splits if_splits
             dest!: rb sw)
  then have same: "bytes r' = bytes r" and more: "pos r < pos r'"
    by simp_all
  show "((readData, r'), (readData, r)) \<in> measure (\<lambda>(readData, r). length (bytes r) - pos r)"
    using less more by (simp add: same)
qed

declare chunkLoop.simps [simp del]

definition parse :: "(byte list \<Rightarrow> byte list option) \<Rightarrow> bool \<Rightarrow> PNGReader \<Rightarrow> error + PNG" where
  "parse inflate readData r =
     ebind (decodeHeader r) (\<lambda>r.
     ebind (chunkLoop readData r) (\<lambda>r.
     ebind (thrown (decodePixels inflate r)) (\<lambda>r.
     Inr (png r))))"

text \<open>
  A decompressor for concrete runs, known on finitely many streams: it inflates the
  compressed streams listed to the data listed with them and reports an error on every
  other input, as zlib does on the empty input, which lacks the header of a zlib stream.
\<close>

definition inflateTable :: "(byte list \<times> byte list) list \<Rightarrow> byte list \<Rightarrow> byte list option" where
  "inflateTable tbl data = map_of tbl data"

text \<open>
  Two zlib streams: of the bytes 0, 128 (one scanline of filter type 0 with one byte) and
  of the bytes 0, 18 (one scanline of filter type 0 holding two pixels of 4 bits).
\<close>

definition zlibSample :: "byte list \<Rightarrow> byte list option" where
  "zlibSample =
     inflateTable [([120, 156, 99, 104, 0, 0, 0, 130, 0, 129], [0, 128]),
                   ([120, 156, 99, 16, 2, 0, 0, 20, 0, 19], [0, 18])]"

text \<open>
  PNG files: the signature, \<open>IHDR\<close>, at most one \<open>IDAT\<close> chunk, \<open>IEND\<close>.
  \<open>samplePNG\<close> is one grey pixel of 8 bits; \<open>grey4PNG\<close> is a row of two grey pixels
  of 4 bits; \<open>adam7PNG\<close> declares Adam7 interlacing and has the image data of
  \<open>samplePNG\<close>; \<open>adam7EmptyPNG\<close> declares Adam7 interlacing and has no image data.
\<close>

definition samplePNG :: "byte list" where
  "samplePNG =
     [137, 80, 78, 71, 13, 10, 26, 10,
      0, 0, 0, 13, 73, 72, 68, 82, 0, 0, 0, 1, 0, 0, 0, 1, 8, 0, 0, 0, 0, 58, 126, 155, 85,
      0, 0, 0, 10, 73, 68, 65, 84, 120, 156, 99, 104, 0, 0, 0, 130, 0, 129, 119, 205, 114, 182,
      0, 0, 0, 0, 73, 69, 78, 68, 174, 66, 96, 130]"

definition grey4PNG :: "byte list" where
  "grey4PNG =
     [137, 80, 78, 71, 13, 10, 26, 10,
      0, 0, 0, 13, 73, 72, 68, 82, 0, 0, 0, 2, 0, 0, 0, 1, 4, 0, 0, 0, 0, 20, 185, 205, 87,
      0, 0, 0, 10, 73, 68, 65, 84, 120, 156, 99, 16, 2, 0, 0, 20, 0, 19, 2, 29, 123, 219,
      0, 0, 0, 0, 73, 69, 78, 68, 174, 66, 96, 130]"

definition adam7PNG :: "byte list" where
  "adam7PNG =
     [137, 80, 78, 71, 13, 10, 26, 10,
      0, 0, 0, 13, 73, 72, 68, 82, 0, 0, 0, 1, 0, 0, 0, 1, 8, 0, 0, 0, 1, 77, 121, 171, 195,
      0, 0, 0, 10, 73, 68, 65, 84, 120, 156, 99, 104, 0, 0, 0, 130, 0, 129, 119, 205, 114, 182,
      0, 0, 0, 0, 73, 69, 78, 68, 174, 66, 96, 130]"

definition adam7EmptyPNG :: "byte list" where
  "adam7EmptyPNG =
     [137, 80, 78, 71, 13, 10, 26, 10,
      0, 0, 0, 13, 73, 72, 68, 82, 0, 0, 0, 1, 0, 0, 0, 1, 8, 0, 0, 0, 1, 77, 121, 171, 195,
      0, 0, 0, 0, 73, 69, 78, 68, 174, 66, 96, 130]"

section \<open>The filters of the PNG standard\<close>

text \<open>
  The repository has no encoder. The round trip is stated against the filters as the PNG
  standard defines them: a filtered byte is the raw byte minus a prediction, modulo 256,
  where the prediction is made from the raw bytes \<open>a\<close> to the left (\<open>bpp\<close> bytes back),
  \<open>b\<close> above and \<open>c\<close> above left, each taken as 0 where the image has no such byte.
\<close>

definition pngPaeth :: "byte \<Rightarrow> byte \<Rightarrow> byte \<Rightarrow> byte" where
  "pngPaeth a b c =
     (let p = uint a + uint b - uint c;
          pa = \<bar>p - uint a\<bar>;
          pb = \<bar>p - uint b\<bar>;
          pc = \<bar>p - uint c\<bar>
      in if pa \<le> pb \<and> pa \<le> pc then a else if pb \<le> pc then b else c)"

definition pngPredictor :: "nat \<Rightarrow> byte \<Rightarrow> byte \<Rightarrow> byte \<Rightarrow> byte" where
  "pngPredictor ft a b c =
     (if ft = 0 then 0
      else if ft = 1 then a
      else if ft = 2 then b
      else if ft = 3 then word_of_int ((uint a + uint b) div 2)
      else pngPaeth a b c)"

definition pngFilterRow :: "nat \<Rightarrow> nat \<Rightarrow> byte list \<Rightarrow> byte list \<Rightarrow> byte list" where
  "pngFilterRow ft bpp prior cur =
     map (\<lambda>x. cur ! x -
               pngPredictor ft (if x < bpp then 0 else cur ! (x - bpp))
                               (prior ! x)
                               (if x < bpp then 0 else prior ! (x - bpp)))
         [0..<length cur]"

text \<open>
  The filtered stream of an image given as rows, each with the filter type chosen for it:
  per row the filter type byte, then the filtered row.
\<close>

fun pngFilterRows :: "nat \<Rightarrow> byte list \<Rightarrow> (nat \<times> byte list) list \<Rightarrow> byte list" where
  "pngFilterRows bpp prior [] = []"
| "pngFilterRows bpp prior ((ft, cur) # rows) =
     (of_nat ft # pngFilterRow ft bpp prior cur) @ pngFilterRows bpp cur rows"

definition pngFilter :: "nat \<Rightarrow> nat \<Rightarrow> (nat \<times> byte list) list \<Rightarrow> byte list" where
  "pngFilter bpp cpr rows = pngFilterRows bpp (replicate cpr 0) rows"

text \<open>
  The prediction of the standard for byte \<open>i\<close> of the row that starts at \<open>ofs\<close> in a
  raster \<open>s\<close> with rows of \<open>len\<close> bytes: the neighbours are read from the raster, and a
  neighbour the raster does not have, to the left of the row or above the first row,
  counts as 0.
\<close>

definition rowPrediction :: "nat \<Rightarrow> nat \<Rightarrow> nat \<Rightarrow> nat \<Rightarrow> byte list \<Rightarrow> nat \<Rightarrow> byte" where
  "rowPrediction ft bpp ofs len s i =
     pngPredictor ft (if i < bpp then 0 else s ! (ofs + i - bpp))
                     (if ofs < len then 0 else s ! (ofs + i - len))
                     (if i < bpp \<or> ofs < len then 0 else s ! (ofs + i - len - bpp))"

text \<open>
  \<open>defiltered ft bpp ofs len sc px j s\<close>: the raster \<open>s\<close> is \<open>px\<close> with the first
  \<open>j\<close> bytes of the row at \<open>ofs\<close> defiltered from the scanline \<open>sc\<close>, each byte being
  the scanline byte plus the prediction for its place.
\<close>

definition defiltered ::
  "nat \<Rightarrow> nat \<Rightarrow> nat \<Rightarrow> nat \<Rightarrow> byte list \<Rightarrow> byte list \<Rightarrow> nat \<Rightarrow> byte list \<Rightarrow> bool" where
  "defiltered ft bpp ofs len sc px j s \<longleftrightarrow>
     length s = length px \<and>
     (\<forall>k<length px. k < ofs \<or> ofs + j \<le> k \<longrightarrow> s ! k = px ! k) \<and>
     (\<forall>i<j. s ! (ofs + i) = sc ! i + rowPrediction ft bpp ofs len s i)"

section \<open>Basic facts about the values\<close>

lemma arrayIndex_of_nat [simp]: "arrayIndex (of_nat n) = Some n"
  by (simp add: arrayIndex_def)

lemma load_of_nat: "load xs (of_nat n) = (if n < length xs then Some (uint (xs ! n)) else None)"
  by (simp add: load_def)

lemma store_of_nat: "store xs (of_nat n) v = xs[n := toUint8 v]"
  by (simp add: store_def list_update_beyond)

lemma length_store [simp]: "length (store xs q v) = length xs"
  by (simp add: store_def split: option.splits)

section \<open>Colour types\<close>

text \<open>
  C7. \<open>setColorType\<close> derives the channel count and the alpha flag from the colour type by
  the fixed table 0 \<mapsto> (1, no alpha), 2 \<mapsto> (3, no alpha), 3 \<mapsto> (1, no alpha),
  4 \<mapsto> (2, alpha), 6 \<mapsto> (4, alpha), storing the colour type with them; for every other
  value it throws 'invalid color type' and leaves the object, in particular the fields
  \<open>colorType\<close>, \<open>colors\<close> and \<open>alpha\<close>, as it was.
\<close>

theorem setColorType_table:
  "setColorType 0 p = (None, p\<lparr>colors := 1, alpha := False, colorType := 0\<rparr>) \<and>
   setColorType 2 p = (None, p\<lparr>colors := 3, alpha := False, colorType := 2\<rparr>) \<and>
   setColorType 3 p = (None, p\<lparr>colors := 1, alpha := False, colorType := 3\<rparr>) \<and>
   setColorType 4 p = (None, p\<lparr>colors := 2, alpha := True, colorType := 4\<rparr>) \<and>
   setColorType 6 p = (None, p\<lparr>colors := 4, alpha := True, colorType := 6\<rparr>) \<and>
   (\<forall>c. c \<notin> {0, 2, 3, 4, 6} \<longrightarrow> setColorType c p = (Some InvalidColorType, p))"
  by (simp add: setColorType_def colorSwitch_def)

theorem setColorType_table_witness:
  "setColorType 6 newPNG = (None, newPNG\<lparr>colors := 4, alpha := True, colorType := 6\<rparr>) \<and>
   (5::nat) \<notin> {0, 2, 3, 4, 6} \<and>
   setColorType 5 (snd (setColorType 6 newPNG)) =
     (Some InvalidColorType, newPNG\<lparr>colors := 4, alpha := True, colorType := 6\<rparr>)"
  using setColorType_table [of "snd (setColorType 6 newPNG)"] setColorType_table [of newPNG]
  by simp

section \<open>Palette validation\<close>

text \<open>
  C8. \<open>setPalette\<close> throws 'incorrect PLTE chunk length' when the length of the palette is
  not divisible by 3, throws (that error or 'palette has more colors than 2^bitdepth')
  when the length exceeds \<open>2^bitDepth * 3\<close>, and in both cases leaves the object with its
  previous palette; otherwise it stores the bytes unchanged as the palette.
\<close>

theorem setPalette_validation:
  "(length pal mod 3 \<noteq> 0 \<longrightarrow> setPalette pal p = (Some BadPLTELength, p)) \<and>
   (length pal > 2 ^ bitDepth p * 3 \<longrightarrow>
      setPalette pal p \<in> {(Some BadPLTELength, p), (Some PaletteTooLarge, p)}) \<and>
   (length pal mod 3 = 0 \<and> length pal > 2 ^ bitDepth p * 3 \<longrightarrow>
      setPalette pal p = (Some PaletteTooLarge, p)) \<and>
   (length pal mod 3 = 0 \<and> length pal \<le> 2 ^ bitDepth p * 3 \<longrightarrow>
      setPalette pal p = (None, p\<lparr>palette := pal\<rparr>))"
  by (simp add: setPalette_def)

theorem setPalette_validation_witness:
  "setPalette [1, 2] (newPNG\<lparr>bitDepth := 1\<rparr>) = (Some BadPLTELength, newPNG\<lparr>bitDepth := 1\<rparr>) \<and>
   setPalette [1, 2, 3, 4, 5, 6, 7, 8, 9] (newPNG\<lparr>bitDepth := 1\<rparr>) =
     (Some PaletteTooLarge, newPNG\<lparr>bitDepth := 1\<rparr>) \<and>
   setPalette [10, 20, 30] (newPNG\<lparr>bitDepth := 1\<rparr>) =
     (None, newPNG\<lparr>bitDepth := 1, palette := [10, 20, 30]\<rparr>)"
  using setPalette_validation [of "[1, 2]" "newPNG\<lparr>bitDepth := 1\<rparr>"]
        setPalette_validation [of "[1, 2, 3, 4, 5, 6, 7, 8, 9]" "newPNG\<lparr>bitDepth := 1\<rparr>"]
        setPalette_validation [of "[10, 20, 30]" "newPNG\<lparr>bitDepth := 1\<rparr>"]
  by (simp add: newPNG_def)

section \<open>The Paeth predictor on samples\<close>

text \<open>
  C2. On numbers \<open>a\<close>, \<open>b\<close>, \<open>c\<close> the predictor of \<open>unFilterPaeth\<close> computes
  \<open>p = a + b - c\<close> and returns \<open>a\<close> when \<open>|p - a| \<le> |p - b|\<close> and \<open>|p - a| \<le> |p - c|\<close>,
  otherwise \<open>b\<close> when \<open>|p - b| \<le> |p - c|\<close>, otherwise \<open>c\<close>. The value returned is one of
  \<open>a\<close>, \<open>b\<close>, \<open>c\<close> and none of the three is closer to \<open>p\<close>; when the three distances
  are equal it is \<open>a\<close>.
\<close>

theorem paethPredictor_nearest:
  fixes a b c :: int
  shows "\<exists>r. paethPredictor (Some a) (Some b) (Some c) = Some r \<and>
           r = (if \<bar>a + b - c - a\<bar> \<le> \<bar>a + b - c - b\<bar> \<and> \<bar>a + b - c - a\<bar> \<le> \<bar>a + b - c - c\<bar> then a
                else if \<bar>a + b - c - b\<bar> \<le> \<bar>a + b - c - c\<bar> then b
                else c) \<and>
           r \<in> {a, b, c} \<and>
           (\<forall>v \<in> {a, b, c}. \<bar>a + b - c - r\<bar> \<le> \<bar>a + b - c - v\<bar>) \<and>
           (\<bar>a + b - c - a\<bar> = \<bar>a + b - c - b\<bar> \<and> \<bar>a + b - c - b\<bar> = \<bar>a + b - c - c\<bar> \<longrightarrow> r = a)"
  by (auto simp: paethPredictor_def nadd_def nsub_def nabs_def nle_def Let_def)

theorem paethPredictor_nearest_witness:
  "paethPredictor (Some 1) (Some 3) (Some 2) = Some 2 \<and>
   paethPredictor (Some 7) (Some 7) (Some 7) = Some 7 \<and>
   paethPredictor (Some 10) (Some 20) (Some 5) = Some 20"
  using paethPredictor_nearest [of 1 3 2] paethPredictor_nearest [of 7 7 7]
        paethPredictor_nearest [of 10 20 5]
  by simp

section \<open>Sequencing\<close>

lemma ebind_Inl_cases:
  assumes "ebind m f = Inl e"
  obtains "m = Inl e" | x where "m = Inr x" and "f x = Inl e"
  using assms by (cases m) (auto simp: ebind_def)

lemma ebind_Inr_cases:
  assumes "ebind m f = Inr y"
  obtains x where "m = Inr x" and "f x = Inr y"
  using assms by (cases m) (auto simp: ebind_def)

lemma ebind_Inr [simp]: "ebind (Inr x) f = f x"
  by (simp add: ebind_def)

lemma ebind_Inl [simp]: "ebind (Inl e) f = Inl e"
  by (simp add: ebind_def)

section \<open>Chunk lengths\<close>

lemma readUInt32_range:
  assumes "readUInt32 buffer offset = Inr v"
  shows "0 \<le> v \<and> v < 2 ^ 32"
proof -
  have b: "0 \<le> uint w \<and> uint w \<le> 255" for w :: byte
    using uint_lt2p [of w] by simp
  from assms have v: "v = uint (buffer ! offset) * 2 ^ 24 + uint (buffer ! (offset + 1)) * 2 ^ 16
                + uint (buffer ! (offset + 2)) * 2 ^ 8 + uint (buffer ! (offset + 3))"
    by (auto simp: readUInt32_def split: if_splits)
  show ?thesis
    using b [of "buffer ! offset"] b [of "buffer ! (offset + 1)"]
          b [of "buffer ! (offset + 2)"] b [of "buffer ! (offset + 3)"]
    unfolding v by simp
qed

lemma thrown_setter_errors:
  "thrown (setWidth w p) \<noteq> Inl (BadChunkLength n)"
  "thrown (setHeight h p) \<noteq> Inl (BadChunkLength n)"
  "thrown (setBitDepth d p) \<noteq> Inl (BadChunkLength n)"
  "thrown (setColorType c p) \<noteq> Inl (BadChunkLength n)"
  "thrown (setCompressionMethod m p) \<noteq> Inl (BadChunkLength n)"
  "thrown (setFilterMethod m p) \<noteq> Inl (BadChunkLength n)"
  "thrown (setInterlaceMethod m p) \<noteq> Inl (BadChunkLength n)"
  "thrown (setPalette pal p) \<noteq> Inl (BadChunkLength n)"
  "thrown (setTRNS t p) \<noteq> Inl (BadChunkLength n)"
  by (auto simp: thrown_def setWidth_def setHeight_def setBitDepth_def setColorType_def
        setCompressionMethod_def setFilterMethod_def setInterlaceMethod_def setPalette_def
        setTRNS_def split: option.splits)

lemma readUInt32_nonneg: "readUInt32 buffer offset = Inr v \<Longrightarrow> \<not> v < 0"
  using readUInt32_range [of buffer offset v] by simp

lemma readUInt32_error: "readUInt32 buffer offset \<noteq> Inl (BadChunkLength n)"
  by (simp add: readUInt32_def)

lemma readBytes_error: "readBytes k r \<noteq> Inl (BadChunkLength n)"
  by (simp add: readBytes_def Let_def)

lemma definedOr_error: "e \<noteq> BadChunkLength n \<Longrightarrow> definedOr e v \<noteq> Inl (BadChunkLength n)"
  by (simp add: definedOr_def split: option.splits)

lemma decodeIHDR_error: "decodeIHDR chunk r \<noteq> Inl (BadChunkLength n)"
proof
  assume "decodeIHDR chunk r = Inl (BadChunkLength n)"
  then show False
    unfolding decodeIHDR_def
    by (elim ebind_Inl_cases)
       (simp_all add: thrown_setter_errors readUInt32_error definedOr_error)
qed

lemma chunkSwitch_error: "chunkSwitch type chunk r \<noteq> Inl (BadChunkLength n)"
proof -
  have "decodePLTE chunk r \<noteq> Inl (BadChunkLength n)"
    by (auto simp: decodePLTE_def thrown_setter_errors elim!: ebind_Inl_cases)
  moreover have "decodeTRNS chunk r \<noteq> Inl (BadChunkLength n)"
    by (auto simp: decodeTRNS_def thrown_setter_errors elim!: ebind_Inl_cases)
  ultimately show ?thesis
    by (simp add: chunkSwitch_def decodeIHDR_error decodeIDAT_def decodeIEND_def)
qed

text \<open>
  C10. The length of a chunk is read as an unsigned big-endian number of 32 bits, so it
  lies in \<open>[0, 2^32)\<close>; the test \<open>length < 0\<close> of \<open>decodeChunk\<close> therefore never
  holds, and \<open>decodeChunk\<close> never throws 'Bad chunk length', whatever the state of the
  reader.
\<close>

theorem decodeChunk_no_bad_chunk_length:
  "(\<forall>buffer offset v. readUInt32 buffer offset = Inr v \<longrightarrow> 0 \<le> v \<and> v < 2 ^ 32) \<and>
   (\<forall>n. decodeChunk r \<noteq> Inl (BadChunkLength n))"
proof (intro conjI allI impI)
  fix buffer offset v
  assume "readUInt32 buffer offset = Inr v"
  then show "0 \<le> v" and "v < 2 ^ 32"
    using readUInt32_range by blast+
next
  fix n
  show "decodeChunk r \<noteq> Inl (BadChunkLength n)"
  proof
    assume "decodeChunk r = Inl (BadChunkLength n)"
    then show False
      unfolding decodeChunk_def Let_def
      by (elim ebind_Inl_cases)
         (auto simp: readBytes_error readUInt32_error chunkSwitch_error
               split: prod.splits if_splits dest: readUInt32_nonneg
               elim!: ebind_Inl_cases)
  qed
qed

theorem decodeChunk_no_bad_chunk_length_witness:
  "readUInt32 [255, 255, 255, 255] 0 = Inr 4294967295 \<and>
   (0::int) \<le> 4294967295 \<and> (4294967295::int) < 2 ^ 32 \<and>
   decodeChunk (newPNGReader [255, 255, 255, 255, 73, 68, 65, 84]) = Inl UnexpectedEOF \<and>
   decodeChunk (newPNGReader [255, 255, 255, 255, 73, 68, 65, 84]) \<noteq> Inl (BadChunkLength (- 1))"
proof -
  have a: "readUInt32 [255, 255, 255, 255] 0 = Inr 4294967295"
    by (simp add: readUInt32_def)
  have b: "decodeChunk (newPNGReader [255, 255, 255, 255, 73, 68, 65, 84]) = Inl UnexpectedEOF"
    by (simp add: decodeChunk_def newPNGReader_def readBytes_def sliceArray_def relativeIndex_def
                  readUInt32_def Let_def bufferToString_def)
  have c: "decodeChunk (newPNGReader [255, 255, 255, 255, 73, 68, 65, 84])
             \<noteq> Inl (BadChunkLength (- 1))"
    using decodeChunk_no_bad_chunk_length
            [of "newPNGReader [255, 255, 255, 255, 73, 68, 65, 84]"]
    by simp
  from a b c show ?thesis by simp
qed

section \<open>Reading a pixel\<close>

lemma setters_keep_pixels:
  "pixels (snd (setWidth w p)) = pixels p"
  "pixels (snd (setHeight h p)) = pixels p"
  "pixels (snd (setBitDepth d p)) = pixels p"
  "pixels (snd (setColorType c p)) = pixels p"
  "pixels (snd (setCompressionMethod m p)) = pixels p"
  "pixels (snd (setFilterMethod m p)) = pixels p"
  "pixels (snd (setInterlaceMethod m p)) = pixels p"
  "pixels (snd (setPalette pal p)) = pixels p"
  "pixels (snd (setTRNS t p)) = pixels p"
  by (simp_all add: setWidth_def setHeight_def setBitDepth_def setColorType_def
        setCompressionMethod_def setFilterMethod_def setInterlaceMethod_def setPalette_def
        setTRNS_def split: option.splits prod.splits)

text \<open>
  What \<open>getPixel\<close> does throw: 'x,y position out of bound' for every coordinate outside
  the image, on every object whose pixel array is an array, populated or not.
\<close>

lemma getPixel_out_of_bound:
  "pixels p \<noteq> None \<Longrightarrow> x \<ge> width p \<or> y \<ge> height p \<Longrightarrow> getPixel p x y = Inl OutOfBound"
  by (auto simp: getPixel_def)

lemma getPixel_empty_only_null: "getPixel p x y = Inl PixelDataEmpty \<longleftrightarrow> pixels p = None"
  by (auto simp: getPixel_def Let_def split: option.splits)

text \<open>
  Where the samples fill whole bytes the offset of \<open>getPixel\<close> is the one the raster was
  written with.
\<close>

lemma getPixelOffset_whole_bytes:
  "8 \<le> colors p * bitDepth p \<Longrightarrow>
     getPixelOffset p x y = bytesPerPixel p * of_nat (y * width p + x)"
proof -
  assume "8 \<le> colors p * bitDepth p"
  then have "(1::rat) \<le> of_nat (colors p * bitDepth p) / 8"
    by (simp add: le_divide_eq flip: of_nat_mult)
  then show ?thesis
    by (simp add: getPixelOffset_def bytesPerPixel_def max_def)
qed

lemma getPixel_whole_bytes:
  assumes "pixels p = Some px" and "x < width p" and "y < height p"
    and "8 \<le> colors p * bitDepth p"
    and "i = bytesPerPixel p * of_nat (y * width p + x)"
  shows "getPixel p x y =
           (if colorType p = 0 then Inr (load px i, load px i, load px i, Some 255)
            else if colorType p = 2 then Inr (load px i, load px (i + 1), load px (i + 2), Some 255)
            else if colorType p = 3 then
              Inr (loadAt (palette p) (nadd (nmul (load px i) (Some 3)) (Some 0)),
                   loadAt (palette p) (nadd (nmul (load px i) (Some 3)) (Some 1)),
                   loadAt (palette p) (nadd (nmul (load px i) (Some 3)) (Some 2)),
                   (case trns p of
                      None \<Rightarrow> Some 255
                    | Some t \<Rightarrow> if loadAt t (load px i) \<noteq> None then loadAt t (load px i)
                                else Some 255))
            else if colorType p = 4 then Inr (load px i, load px i, load px i, load px (i + 1))
            else if colorType p = 6 then
              Inr (load px i, load px (i + 1), load px (i + 2), load px (i + 3))
            else Inl InvalidColorType)"
proof -
  have "getPixelOffset p x y = i"
    using getPixelOffset_whole_bytes [OF assms(4), of x y] assms(5) by simp
  then show ?thesis
    using assms(1-3) by (simp add: getPixel_def Let_def cong: option.case_cong)
qed

text \<open>
  C6, on the code. An object whose raster was never populated holds the empty array the
  class initialises \<open>pixels\<close> with. The test \<open>!this.pixels\<close> of \<open>getPixel\<close> is false for
  it, so for a coordinate inside the image \<open>getPixel\<close> throws nothing: it returns
  \<open>[undefined, undefined, undefined, 255]\<close>. Here the object is a new \<open>PNG\<close> after
  \<open>setWidth(1)\<close> and \<open>setHeight(1)\<close>.
\<close>

theorem getPixel_unpopulated_returns:
  "pixels (snd (setHeight 1 (snd (setWidth 1 newPNG)))) = Some [] \<and>
   getPixel (snd (setHeight 1 (snd (setWidth 1 newPNG)))) 0 0 = Inr (None, None, None, Some 255)"
  by (simp add: setHeight_def setWidth_def newPNG_def getPixel_def getPixelOffset_def load_def
                arrayIndex_def)

text \<open>
  C5, on the code. \<open>grey4PNG\<close> is a row of two grey pixels of 4 bits. \<open>interlaceNone\<close>
  lays its raster out with \<open>bpp = max(1, 4 / 8) = 1\<close> byte per pixel, two bytes in all.
  \<open>getPixel(1, 0)\<close> computes its offset without the maximum: \<open>4 / 8 * 1 = 1 / 2\<close>, not
  \<open>1 * 1 = 1\<close>; no element has that index and the result is
  \<open>[undefined, undefined, undefined, 255]\<close>, not the byte at offset 1.
\<close>

theorem getPixel_offset_sub_byte:
  "parse zlibSample True (newPNGReader grey4PNG) =
     Inr \<lparr> width = 2, height = 1, bitDepth = 4, colorType = 0,
           compressionMethod = 0, filterMethod = 0, interlaceMethod = 0,
           colors = 1, alpha = False, palette = [],
           pixels = Some [18, 0], trns = Some [] \<rparr> \<and>
   getPixelOffset \<lparr> width = 2, height = 1, bitDepth = 4, colorType = 0,
           compressionMethod = 0, filterMethod = 0, interlaceMethod = 0,
           colors = 1, alpha = False, palette = [],
           pixels = Some [18, 0], trns = Some [] \<rparr> 1 0 = 1 / 2 \<and>
   bytesPerPixel \<lparr> width = 2, height = 1, bitDepth = 4, colorType = 0,
           compressionMethod = 0, filterMethod = 0, interlaceMethod = 0,
           colors = 1, alpha = False, palette = [],
           pixels = Some [18, 0], trns = Some [] \<rparr> * of_nat (0 * 2 + 1) = 1 \<and>
   getPixel \<lparr> width = 2, height = 1, bitDepth = 4, colorType = 0,
           compressionMethod = 0, filterMethod = 0, interlaceMethod = 0,
           colors = 1, alpha = False, palette = [],
           pixels = Some [18, 0], trns = Some [] \<rparr> 1 0 = Inr (None, None, None, Some 255) \<and>
   load [18, 0] 1 = Some 0"
  by code_simp

section \<open>Header-only parsing\<close>

lemma chunkLoop_stops_after_IHDR:
  "pos r < length (bytes r) \<Longrightarrow> decodeChunk r = Inr (''IHDR'', r') \<Longrightarrow>
     chunkLoop False r = Inr r'"
  by (simp add: chunkLoop.simps [of False r])

lemma decodePixels_no_data:
  "dataChunks r = [] \<Longrightarrow> inflate [] = None \<Longrightarrow>
     decodePixels inflate r = (Some InflateError, r)"
  by (simp add: decodePixels_def)

lemma parse_always_decodes_pixels:
  "decodeHeader r = Inr r1 \<Longrightarrow> chunkLoop readData r1 = Inr r2 \<Longrightarrow>
     parse inflate readData r = ebind (thrown (decodePixels inflate r2)) (\<lambda>r. Inr (png r))"
  by (simp add: parse_def)

text \<open>
  C4, on the code. \<open>samplePNG\<close> has the chunks \<open>IHDR\<close>, \<open>IDAT\<close>, \<open>IEND\<close>. With
  \<open>readData = false\<close> the chunk loop stops behind \<open>IHDR\<close>, at byte 33, with no data chunk
  collected; \<open>parse\<close> then calls \<open>decodePixels\<close> all the same, the empty data is handed
  to the decompressor, which rejects it, and \<open>parse\<close> fails with that error where the
  header was to be returned. With \<open>readData = true\<close> the same file decodes.
\<close>

theorem parse_header_only_inflates:
  "ebind (decodeHeader (newPNGReader samplePNG)) (chunkLoop False) =
     Inr \<lparr> bytes = samplePNG, pos = 33,
           png = \<lparr> width = 1, height = 1, bitDepth = 8, colorType = 0,
                   compressionMethod = 0, filterMethod = 0, interlaceMethod = 0,
                   colors = 1, alpha = False, palette = [],
                   pixels = Some [], trns = Some [] \<rparr>,
           dataChunks = [], header = Some [137, 80, 78, 71, 13, 10, 26, 10] \<rparr> \<and>
   zlibSample [] = None \<and>
   parse zlibSample False (newPNGReader samplePNG) = Inl InflateError \<and>
   parse zlibSample True (newPNGReader samplePNG) =
     Inr \<lparr> width = 1, height = 1, bitDepth = 8, colorType = 0,
           compressionMethod = 0, filterMethod = 0, interlaceMethod = 0,
           colors = 1, alpha = False, palette = [],
           pixels = Some [128], trns = Some [] \<rparr>"
  by code_simp

section \<open>Loops over natural bounds\<close>

lemma forLoop_of_nat: "forLoop i (of_nat n) body s = (max i n, fold body [i..<n] s)"
proof (induction "n - i" arbitrary: i s)
  case 0
  then have "n \<le> i" by simp
  then show ?case
    by (simp add: forLoop.simps [of i] max_def)
next
  case (Suc d)
  then have less: "i < n" and d: "d = n - Suc i" by simp_all
  have "forLoop i (of_nat n) body s = forLoop (Suc i) (of_nat n) body (body i s)"
    using less by (simp add: forLoop.simps [of i])
  also have "\<dots> = (max (Suc i) n, fold body [Suc i..<n] (body i s))"
    using Suc.hyps(1) [OF d] .
  also have "\<dots> = (max i n, fold body [i..<n] s)"
    using less by (simp add: upt_conv_Cons max_def)
  finally show ?case .
qed

lemma fold_upt_invariant:
  assumes "P a s" and "a \<le> b"
    and "\<And>i s. a \<le> i \<Longrightarrow> i < b \<Longrightarrow> P i s \<Longrightarrow> P (Suc i) (f i s)"
  shows "P b (fold f [a..<b] s)"
  using assms(2,1,3)
proof (induction b rule: dec_induct)
  case base
  then show ?case by simp
next
  case (step n)
  have "P n (fold f [a..<n] s)"
    using step.IH step.prems step.hyps by simp
  then show ?case
    using step.hyps step.prems(2) [of n "fold f [a..<n] s"] by simp
qed

section \<open>Reads and writes at natural indices\<close>

lemma load_nat:
  "q = of_nat k \<Longrightarrow> k < length xs \<Longrightarrow> load xs q = Some (uint (xs ! k))"
  by (simp add: load_def)

lemma store_nat:
  "q = of_nat k \<Longrightarrow> store xs q v = xs[k := toUint8 v]"
  by (simp add: store_def list_update_beyond)

lemma toInt32_small: "0 \<le> x \<Longrightarrow> x < 2 ^ 31 \<Longrightarrow> toInt32 (Some x) = x"
  by (simp add: toInt32_def)

lemma toInt32_mod_256: "toInt32 (Some x) mod 256 = x mod 256"
proof -
  define q where "q = (x + 2147483648) div 4294967296"
  have "(x + 2147483648) mod 4294967296 = x + 2147483648 - 4294967296 * q"
    unfolding q_def by (rule minus_mult_div_eq_mod [symmetric])
  then have "(x + 2147483648) mod 4294967296 - 2147483648 = x - 256 * (16777216 * q)"
    by simp
  moreover have "(x - 256 * (16777216 * q)) mod 256 = x mod 256"
    using mod_mult_self2 [of x 256 "- (16777216 * q)"] by simp
  ultimately show ?thesis
    by (simp add: toInt32_def)
qed

lemma byte_of_int_mod_256: "(word_of_int (x mod 256) :: byte) = word_of_int x"
  by (rule word_of_int_eq_iff [THEN iffD2]) (simp add: take_bit_eq_mod)

lemma toUint8_and255_nadd:
  "toUint8 (and255 (nadd (Some x) (Some y))) = word_of_int x + word_of_int y"
  by (simp add: toUint8_def and255_def nadd_def toInt32_mod_256 byte_of_int_mod_256)

lemma toUint8_uint [simp]: "toUint8 (Some (uint w)) = w"
  by (simp add: toUint8_def)

lemma shr1_byte: "shr1 (Some (uint (w :: byte))) = Some (uint w div 2)"
proof -
  have "uint w < 256" using uint_lt2p [of w] by simp
  then show ?thesis
    by (simp add: shr1_def toInt32_small)
qed

lemma shr1_byte_sum:
  "shr1 (nadd (Some (uint (a :: byte))) (Some (uint (b :: byte)))) = Some ((uint a + uint b) div 2)"
proof -
  have "uint a < 256" "uint b < 256"
    using uint_lt2p [of a] uint_lt2p [of b] by simp_all
  then show ?thesis
    by (simp add: shr1_def nadd_def toInt32_small)
qed

lemma paethPredictor_bytes:
  "paethPredictor (Some (uint a)) (Some (uint b)) (Some (uint c)) = Some (uint (pngPaeth a b c))"
  by (simp add: paethPredictor_def pngPaeth_def nadd_def nsub_def nabs_def nle_def Let_def)

lemma pngPaeth_row0 [simp]: "pngPaeth a 0 0 = a"
  by (simp add: pngPaeth_def)

lemma pngPaeth_col0 [simp]: "pngPaeth 0 b 0 = b"
  by (auto simp: pngPaeth_def Let_def uint_0_iff)

section \<open>Defiltering one row\<close>

lemma rowPrediction_update:
  assumes "i \<le> j" and "j < len" and "1 \<le> bpp"
  shows "rowPrediction ft bpp ofs len (s[ofs + j := v]) i = rowPrediction ft bpp ofs len s i"
proof -
  have a: "s[ofs + j := v] ! (ofs + i - bpp) = s ! (ofs + i - bpp)" if "\<not> i < bpp"
    using assms that by (intro nth_list_update_neq) arith
  have b: "s[ofs + j := v] ! (ofs + i - len) = s ! (ofs + i - len)" if "\<not> ofs < len"
    using assms that by (intro nth_list_update_neq) arith
  have c: "s[ofs + j := v] ! (ofs + i - (len + bpp)) = s ! (ofs + i - (len + bpp))"
    if "\<not> ofs < len" and "\<not> i < bpp"
    using assms that by (intro nth_list_update_neq) arith
  show ?thesis
    by (cases "i < bpp"; cases "ofs < len") (simp_all add: rowPrediction_def a b c)
qed

lemma rowPrediction_cong:
  assumes "\<And>k. k < ofs + i \<Longrightarrow> s ! k = t ! k" and "i < len" and "1 \<le> bpp"
  shows "rowPrediction ft bpp ofs len s i = rowPrediction ft bpp ofs len t i"
proof -
  have a: "s ! (ofs + i - bpp) = t ! (ofs + i - bpp)" if "\<not> i < bpp"
    using assms(2,3) that by (intro assms(1)) arith
  have b: "s ! (ofs + i - len) = t ! (ofs + i - len)" if "\<not> ofs < len"
    using assms(2,3) that by (intro assms(1)) arith
  have c: "s ! (ofs + i - (len + bpp)) = t ! (ofs + i - (len + bpp))"
    if "\<not> ofs < len" and "\<not> i < bpp"
    using assms(2,3) that by (intro assms(1)) arith
  show ?thesis
    by (cases "i < bpp"; cases "ofs < len") (simp_all add: rowPrediction_def a b c)
qed

lemma defiltered_start: "defiltered ft bpp ofs len sc px 0 px"
  by (simp add: defiltered_def)

lemma defiltered_step:
  assumes inv: "defiltered ft bpp ofs len sc px j s"
    and j: "j < len" and fits: "ofs + len \<le> length px" and bpp: "1 \<le> bpp"
    and v: "v = sc ! j + rowPrediction ft bpp ofs len s j"
  shows "defiltered ft bpp ofs len sc px (Suc j) (s[ofs + j := v])"
proof -
  from inv have len_s: "length s = length px"
    and out: "\<And>k. k < length px \<Longrightarrow> k < ofs \<or> ofs + j \<le> k \<Longrightarrow> s ! k = px ! k"
    and row: "\<And>i. i < j \<Longrightarrow> s ! (ofs + i) = sc ! i + rowPrediction ft bpp ofs len s i"
    by (auto simp: defiltered_def)
  have "s[ofs + j := v] ! (ofs + i) = sc ! i + rowPrediction ft bpp ofs len (s[ofs + j := v]) i"
    if "i < Suc j" for i
  proof (cases "i = j")
    case True
    have "ofs + j < length s"
      using j fits len_s by simp
    then show ?thesis
      using True v j bpp by (simp add: rowPrediction_update)
  next
    case False
    with that have "i < j" by simp
    then show ?thesis
      using row [of i] j bpp by (simp add: rowPrediction_update)
  qed
  moreover have "s[ofs + j := v] ! k = px ! k"
    if "k < length px" and "k < ofs \<or> ofs + Suc j \<le> k" for k
    using that out [of k] by auto
  ultimately show ?thesis
    using len_s by (simp add: defiltered_def)
qed

lemma defiltered_loop:
  assumes start: "defiltered ft bpp ofs len sc px a s"
    and ab: "a \<le> b" and b: "b \<le> len" and fits: "ofs + len \<le> length px" and bpp: "1 \<le> bpp"
    and body: "\<And>i s. a \<le> i \<Longrightarrow> i < b \<Longrightarrow> defiltered ft bpp ofs len sc px i s \<Longrightarrow>
                 body i s = s[ofs + i := sc ! i + rowPrediction ft bpp ofs len s i]"
  shows "defiltered ft bpp ofs len sc px b (fold body [a..<b] s)"
proof (rule fold_upt_invariant [where P = "defiltered ft bpp ofs len sc px", OF start ab])
  fix i s
  assume i: "a \<le> i" "i < b" and inv: "defiltered ft bpp ofs len sc px i s"
  have "defiltered ft bpp ofs len sc px (Suc i) (s[ofs + i := sc ! i + rowPrediction ft bpp ofs len s i])"
    using inv i b fits bpp by (intro defiltered_step) simp_all
  then show "defiltered ft bpp ofs len sc px (Suc i) (body i s)"
    using body [OF i inv] by simp
qed

lemma store_at: "store s (of_nat ofs + of_nat i) v = s[ofs + i := toUint8 v]"
  by (rule store_nat) simp

lemma load_scanline: "i < length sc \<Longrightarrow> load sc (of_nat i) = Some (uint (sc ! i))"
  by (simp add: load_of_nat)

lemma load_left:
  "bpp \<le> i \<Longrightarrow> ofs + i < length s \<Longrightarrow>
     load s (of_nat ofs + of_nat i - of_nat bpp) = Some (uint (s ! (ofs + i - bpp)))"
  by (rule load_nat) (simp_all add: of_nat_diff)

lemma load_up:
  "len \<le> ofs \<Longrightarrow> ofs + i < length s \<Longrightarrow>
     load s (of_nat ofs + of_nat i - of_nat len) = Some (uint (s ! (ofs + i - len)))"
  by (rule load_nat) (simp_all add: of_nat_diff)

lemma load_up':
  "len \<le> ofs \<Longrightarrow> ofs + i < length s \<Longrightarrow>
     load s (of_nat ofs - of_nat len + of_nat i) = Some (uint (s ! (ofs + i - len)))"
  by (rule load_nat) (simp_all add: of_nat_diff)

lemma load_upleft:
  "len \<le> ofs \<Longrightarrow> bpp \<le> i \<Longrightarrow> ofs + i < length s \<Longrightarrow>
     load s (of_nat ofs + of_nat i - of_nat len - of_nat bpp)
       = Some (uint (s ! (ofs + i - len - bpp)))"
  by (rule load_nat) (simp_all add: of_nat_diff)

lemma unFilterNone_defiltered:
  assumes "1 \<le> bpp" and "length sc = len" and "ofs + len \<le> length px"
  shows "defiltered 0 bpp ofs len sc px len (unFilterNone sc px (of_nat bpp) (of_nat ofs) (of_nat len))"
  unfolding unFilterNone_def forLoop_of_nat snd_conv
  using assms
  by (intro defiltered_loop defiltered_start)
     (simp_all add: store_at load_scanline rowPrediction_def pngPredictor_def)

lemma unFilterSub_defiltered:
  assumes "1 \<le> bpp" and "bpp \<le> len" and "length sc = len" and "ofs + len \<le> length px"
  shows "defiltered 1 bpp ofs len sc px len (unFilterSub sc px (of_nat bpp) (of_nat ofs) (of_nat len))"
proof -
  let ?first = "fold (\<lambda>i px. store px (of_nat ofs + of_nat i) (load sc (of_nat i))) [0..<bpp] px"
  have first: "defiltered 1 bpp ofs len sc px bpp ?first"
    using assms
    by (intro defiltered_loop defiltered_start)
       (simp_all add: store_at load_scanline rowPrediction_def pngPredictor_def)
  have "defiltered 1 bpp ofs len sc px len
          (fold (\<lambda>i px. store px (of_nat ofs + of_nat i)
                   (and255 (nadd (load sc (of_nat i)) (load px (of_nat ofs + of_nat i - of_nat bpp)))))
             [bpp..<len] ?first)"
    using assms
    by (intro defiltered_loop first)
       (simp_all add: store_at load_scanline load_left defiltered_def toUint8_and255_nadd
          rowPrediction_def pngPredictor_def)
  then show ?thesis
    using assms by (simp add: unFilterSub_def forLoop_of_nat max_def)
qed

lemma unFilterUp_defiltered:
  assumes "1 \<le> bpp" and "length sc = len" and "ofs + len \<le> length px"
  shows "defiltered 2 bpp ofs len sc px len (unFilterUp sc px (of_nat bpp) (of_nat ofs) (of_nat len))"
proof (cases "ofs < len")
  case True
  have "defiltered 2 bpp ofs len sc px len
          (fold (\<lambda>i px. store px (of_nat ofs + of_nat i) (load sc (of_nat i))) [0..<len] px)"
    using assms True
    by (intro defiltered_loop defiltered_start)
       (simp_all add: store_at load_scanline rowPrediction_def pngPredictor_def)
  then show ?thesis
    using True by (simp add: unFilterUp_def forLoop_of_nat)
next
  case False
  have "defiltered 2 bpp ofs len sc px len
          (fold (\<lambda>i px. let byte = load sc (of_nat i);
                            prev = load px (of_nat ofs + of_nat i - of_nat len)
                        in store px (of_nat ofs + of_nat i) (and255 (nadd byte prev)))
             [0..<len] px)"
    using assms False
    by (intro defiltered_loop defiltered_start)
       (simp_all add: store_at load_scanline load_up defiltered_def toUint8_and255_nadd
          rowPrediction_def pngPredictor_def Let_def)
  then show ?thesis
    using False by (simp add: unFilterUp_def forLoop_of_nat)
qed

lemma unFilterAverage_defiltered:
  assumes "1 \<le> bpp" and "bpp \<le> len" and "length sc = len" and "ofs + len \<le> length px"
  shows "defiltered 3 bpp ofs len sc px len
           (unFilterAverage sc px (of_nat bpp) (of_nat ofs) (of_nat len))"
proof (cases "ofs < len")
  case True
  let ?first = "fold (\<lambda>i px. store px (of_nat ofs + of_nat i) (load sc (of_nat i))) [0..<bpp] px"
  have first: "defiltered 3 bpp ofs len sc px bpp ?first"
    using assms True
    by (intro defiltered_loop defiltered_start)
       (simp_all add: store_at load_scanline rowPrediction_def pngPredictor_def)
  have "defiltered 3 bpp ofs len sc px len
          (fold (\<lambda>i px. store px (of_nat ofs + of_nat i)
                   (and255 (nadd (load sc (of_nat i))
                                 (shr1 (load px (of_nat ofs + of_nat i - of_nat bpp))))))
             [bpp..<len] ?first)"
    using assms True
    by (intro defiltered_loop first)
       (simp_all add: store_at load_scanline load_left defiltered_def toUint8_and255_nadd
          shr1_byte rowPrediction_def pngPredictor_def)
  then show ?thesis
    using assms True by (simp add: unFilterAverage_def forLoop_of_nat max_def)
next
  case False
  let ?first = "fold (\<lambda>i px. store px (of_nat ofs + of_nat i)
                   (and255 (nadd (load sc (of_nat i))
                                 (shr1 (load px (of_nat ofs - of_nat len + of_nat i))))))
                  [0..<bpp] px"
  have first: "defiltered 3 bpp ofs len sc px bpp ?first"
    using assms False
    by (intro defiltered_loop defiltered_start)
       (simp_all add: store_at load_scanline load_up' defiltered_def toUint8_and255_nadd
          shr1_byte rowPrediction_def pngPredictor_def)
  have "defiltered 3 bpp ofs len sc px len
          (fold (\<lambda>i px. let byte = load sc (of_nat i);
                            prev = load px (of_nat ofs + of_nat i - of_nat bpp);
                            prior = load px (of_nat ofs + of_nat i - of_nat len)
                        in store px (of_nat ofs + of_nat i)
                             (and255 (nadd byte (shr1 (nadd prev prior)))))
             [bpp..<len] ?first)"
    using assms False
    by (intro defiltered_loop first)
       (simp_all add: store_at load_scanline load_left load_up defiltered_def
          toUint8_and255_nadd shr1_byte_sum rowPrediction_def pngPredictor_def Let_def)
  then show ?thesis
    using assms False by (simp add: unFilterAverage_def forLoop_of_nat max_def)
qed

lemma unFilterPaeth_defiltered:
  assumes "1 \<le> bpp" and "bpp \<le> len" and "length sc = len" and "ofs + len \<le> length px"
  shows "defiltered 4 bpp ofs len sc px len
           (unFilterPaeth sc px (of_nat bpp) (of_nat ofs) (of_nat len))"
proof (cases "ofs < len")
  case True
  let ?first = "fold (\<lambda>i px. store px (of_nat ofs + of_nat i) (load sc (of_nat i))) [0..<bpp] px"
  have first: "defiltered 4 bpp ofs len sc px bpp ?first"
    using assms True
    by (intro defiltered_loop defiltered_start)
       (simp_all add: store_at load_scanline rowPrediction_def pngPredictor_def)
  have "defiltered 4 bpp ofs len sc px len
          (fold (\<lambda>i px. store px (of_nat ofs + of_nat i)
                   (and255 (nadd (load sc (of_nat i))
                                 (load px (of_nat ofs + of_nat i - of_nat bpp)))))
             [bpp..<len] ?first)"
    using assms True
    by (intro defiltered_loop first)
       (simp_all add: store_at load_scanline load_left defiltered_def toUint8_and255_nadd
          rowPrediction_def pngPredictor_def)
  then show ?thesis
    using assms True by (simp add: unFilterPaeth_def forLoop_of_nat max_def)
next
  case False
  let ?first = "fold (\<lambda>i px. store px (of_nat ofs + of_nat i)
                   (and255 (nadd (load sc (of_nat i))
                                 (load px (of_nat ofs + of_nat i - of_nat len)))))
                  [0..<bpp] px"
  have first: "defiltered 4 bpp ofs len sc px bpp ?first"
    using assms False
    by (intro defiltered_loop defiltered_start)
       (simp_all add: store_at load_scanline load_up defiltered_def toUint8_and255_nadd
          rowPrediction_def pngPredictor_def)
  have "defiltered 4 bpp ofs len sc px len
          (fold (\<lambda>i px. let raw = load sc (of_nat i);
                            a = load px (of_nat ofs + of_nat i - of_nat bpp);
                            b = load px (of_nat ofs + of_nat i - of_nat len);
                            c = load px (of_nat ofs + of_nat i - of_nat len - of_nat bpp);
                            pr = paethPredictor a b c
                        in store px (of_nat ofs + of_nat i) (and255 (nadd raw pr)))
             [bpp..<len] ?first)"
    using assms False
    by (intro defiltered_loop first)
       (simp_all add: store_at load_scanline load_left load_up load_upleft defiltered_def
          toUint8_and255_nadd paethPredictor_bytes rowPrediction_def pngPredictor_def Let_def
          del: diff_diff_left)
  then show ?thesis
    using assms False by (simp add: unFilterPaeth_def forLoop_of_nat max_def)
qed

lemma filterSwitch_defiltered:
  assumes "filterSwitch (Some (int ft)) = Some unFilter"
    and "1 \<le> bpp" and "bpp \<le> len" and "length sc = len" and "ofs + len \<le> length px"
  shows "defiltered ft bpp ofs len sc px len (unFilter sc px (of_nat bpp) (of_nat ofs) (of_nat len))"
proof -
  from assms(1) consider
      "ft = 0" "unFilter = unFilterNone" | "ft = 1" "unFilter = unFilterSub"
    | "ft = 2" "unFilter = unFilterUp" | "ft = 3" "unFilter = unFilterAverage"
    | "ft = 4" "unFilter = unFilterPaeth"
    by (auto simp: filterSwitch_def split: if_splits)
  then show ?thesis
    using assms(2-)
    by cases
       (blast intro: unFilterNone_defiltered unFilterSub_defiltered unFilterUp_defiltered
          unFilterAverage_defiltered unFilterPaeth_defiltered)+
qed

lemma defiltered_nth:
  assumes "defiltered ft bpp ofs len sc px len out" and "i < len"
  shows "out ! (ofs + i) = sc ! i + rowPrediction ft bpp ofs len out i"
  using assms by (simp add: defiltered_def)

lemma defiltered_below:
  assumes "defiltered ft bpp ofs len sc px len out" and "k < ofs" and "ofs + len \<le> length px"
  shows "out ! k = px ! k"
  using assms by (simp add: defiltered_def)

lemma defiltered_length:
  assumes "defiltered ft bpp ofs len sc px j out"
  shows "length out = length px"
  using assms by (simp add: defiltered_def)

text \<open>
  C3. Take a raster \<open>px\<close> with rows of \<open>len = bpp * w\<close> bytes, a scanline \<open>sc\<close> of \<open>len\<close>
  bytes and the row \<open>r\<close> it is defiltered into, at offset \<open>r * len\<close>.
  On row 0 the row above counts as zeros: \<open>unFilterUp\<close> writes the scanline unchanged,
  \<open>unFilterPaeth\<close> does what \<open>unFilterSub\<close> does, and \<open>unFilterAverage\<close> copies the first
  \<open>bpp\<close> bytes and adds to every later byte half the byte \<open>bpp\<close> places to its left.
  On a later row, within the first \<open>bpp\<close> bytes the bytes to the left and above left
  count as zeros: \<open>unFilterAverage\<close> adds half the byte above and \<open>unFilterPaeth\<close> adds the
  byte above.
\<close>

theorem unFilter_boundaries:
  assumes "1 \<le> bpp" and "1 \<le> w" and "len = bpp * w"
    and "length sc = len" and "(r + 1) * len \<le> length px"
  shows "(r = 0 \<longrightarrow>
            take len (unFilterUp sc px (of_nat bpp) 0 (of_nat len)) = sc \<and>
            unFilterPaeth sc px (of_nat bpp) 0 (of_nat len)
              = unFilterSub sc px (of_nat bpp) 0 (of_nat len) \<and>
            (\<forall>i<bpp. unFilterPaeth sc px (of_nat bpp) 0 (of_nat len) ! i = sc ! i) \<and>
            (\<forall>i<bpp. unFilterAverage sc px (of_nat bpp) 0 (of_nat len) ! i = sc ! i) \<and>
            (\<forall>i<len. bpp \<le> i \<longrightarrow>
               unFilterAverage sc px (of_nat bpp) 0 (of_nat len) ! i
                 = sc ! i + word_of_int (uint (unFilterAverage sc px (of_nat bpp) 0 (of_nat len)
                                                ! (i - bpp)) div 2))) \<and>
         (0 < r \<longrightarrow>
            (\<forall>i<bpp. unFilterAverage sc px (of_nat bpp) (of_nat (r * len)) (of_nat len) ! (r * len + i)
                       = sc ! i + word_of_int (uint (px ! (r * len + i - len)) div 2)) \<and>
            (\<forall>i<bpp. unFilterPaeth sc px (of_nat bpp) (of_nat (r * len)) (of_nat len) ! (r * len + i)
                       = sc ! i + px ! (r * len + i - len)))"
proof -
  have bl: "bpp \<le> len" and pos: "0 < len"
    using assms(1-3) by simp_all
  have fits: "r * len + len \<le> length px"
    using assms(5) by (simp add: algebra_simps)
  note inv = assms(1) bl assms(4) fits
  have first: ?thesis if r: "r = 0"
  proof -
    let ?up = "unFilterUp sc px (of_nat bpp) 0 (of_nat len)"
    let ?av = "unFilterAverage sc px (of_nat bpp) 0 (of_nat len)"
    let ?pa = "unFilterPaeth sc px (of_nat bpp) 0 (of_nat len)"
    have up: "defiltered 2 bpp 0 len sc px len ?up"
      using unFilterUp_defiltered [of bpp sc len 0 px] inv r by simp
    have av: "defiltered 3 bpp 0 len sc px len ?av"
      using unFilterAverage_defiltered [of bpp len sc 0 px] inv r by simp
    have pa: "defiltered 4 bpp 0 len sc px len ?pa"
      using unFilterPaeth_defiltered [of bpp len sc 0 px] inv r by simp
    have "take len ?up = sc"
    proof (rule nth_equalityI)
      show "length (take len ?up) = length sc"
        using defiltered_length [OF up] fits assms(4) by simp
      fix i assume "i < length (take len ?up)"
      then have "i < len" by simp
      then show "take len ?up ! i = sc ! i"
        using defiltered_nth [OF up, of i] pos
        by (simp add: rowPrediction_def pngPredictor_def)
    qed
    moreover have "?pa = unFilterSub sc px (of_nat bpp) 0 (of_nat len)"
      using pos by (simp add: unFilterPaeth_def unFilterSub_def)
    moreover have "?pa ! i = sc ! i" if "i < bpp" for i
      using defiltered_nth [OF pa, of i] that bl pos
      by (simp add: rowPrediction_def pngPredictor_def)
    moreover have "?av ! i = sc ! i" if "i < bpp" for i
      using defiltered_nth [OF av, of i] that bl pos
      by (simp add: rowPrediction_def pngPredictor_def)
    moreover have "?av ! i = sc ! i + word_of_int (uint (?av ! (i - bpp)) div 2)"
      if "i < len" and "bpp \<le> i" for i
      using defiltered_nth [OF av, of i] that pos
      by (simp add: rowPrediction_def pngPredictor_def)
    moreover have "\<not> 0 < r"
      using r by simp
    ultimately show ?thesis
      by blast
  qed
  have later: ?thesis if r: "0 < r"
  proof -
    let ?ofs = "r * len"
    let ?av = "unFilterAverage sc px (of_nat bpp) (of_nat ?ofs) (of_nat len)"
    let ?pa = "unFilterPaeth sc px (of_nat bpp) (of_nat ?ofs) (of_nat len)"
    have ge: "\<not> ?ofs < len"
      using r by simp
    have av: "defiltered 3 bpp ?ofs len sc px len ?av"
      using inv by (rule unFilterAverage_defiltered)
    have pa: "defiltered 4 bpp ?ofs len sc px len ?pa"
      using inv by (rule unFilterPaeth_defiltered)
    have "?av ! (?ofs + i) = sc ! i + word_of_int (uint (px ! (?ofs + i - len)) div 2)"
      if "i < bpp" for i
    proof -
      have "?ofs + i - len < ?ofs"
        using that bl pos r by (cases r) simp_all
      then have "?av ! (?ofs + i - len) = px ! (?ofs + i - len)"
        using defiltered_below [OF av _ fits] by simp
      then show ?thesis
        using defiltered_nth [OF av, of i] that bl ge
        by (simp add: rowPrediction_def pngPredictor_def)
    qed
    moreover have "?pa ! (?ofs + i) = sc ! i + px ! (?ofs + i - len)"
      if "i < bpp" for i
    proof -
      have "?ofs + i - len < ?ofs"
        using that bl pos r by (cases r) simp_all
      then have "?pa ! (?ofs + i - len) = px ! (?ofs + i - len)"
        using defiltered_below [OF pa _ fits] by simp
      then show ?thesis
        using defiltered_nth [OF pa, of i] that bl ge
        by (simp add: rowPrediction_def pngPredictor_def)
    qed
    moreover have "r \<noteq> 0"
      using r by simp
    ultimately show ?thesis
      by blast
  qed
  show ?thesis
    by (cases "r = 0") (rule first, assumption, rule later, simp)
qed

theorem unFilter_boundaries_witness:
  "take 2 (unFilterUp [10, 20] [1, 2, 3, 4] 1 0 2) = [10, 20] \<and>
   unFilterPaeth [10, 20] [1, 2, 3, 4] 1 0 2 = unFilterSub [10, 20] [1, 2, 3, 4] 1 0 2 \<and>
   unFilterAverage [10, 20] [1, 2, 3, 4] 1 0 2 ! 0 = 10 \<and>
   unFilterAverage [10, 20] [7, 2, 3, 5] 1 2 2 ! 2 = 13 \<and>
   unFilterPaeth [10, 20] [7, 2, 3, 5] 1 2 2 ! 2 = 17"
  using unFilter_boundaries [where bpp = 1 and w = 2 and len = 2 and sc = "[10, 20]"
          and r = 0 and px = "[1, 2, 3, 4]"]
        unFilter_boundaries [where bpp = 1 and w = 2 and len = 2 and sc = "[10, 20]"
          and r = 1 and px = "[7, 2, 3, 5]"]
  by simp

section \<open>The round trip\<close>

lemma defiltered_raw:
  assumes inv: "defiltered ft bpp ofs len sc px len out"
    and bpp: "1 \<le> bpp" and fits: "ofs + len \<le> length px"
    and below: "\<And>k. k < ofs \<Longrightarrow> px ! k = raw ! k"
    and enc: "\<And>i. i < len \<Longrightarrow> sc ! i = raw ! (ofs + i) - rowPrediction ft bpp ofs len raw i"
    and k: "k < ofs + len"
  shows "out ! k = raw ! k"
  using k
proof (induction k rule: less_induct)
  case (less k)
  show ?case
  proof (cases "k < ofs")
    case True
    then show ?thesis
      using defiltered_below [OF inv True fits] below by simp
  next
    case False
    define i where "i = k - ofs"
    have k: "k = ofs + i" and i: "i < len"
      using False less.prems by (simp_all add: i_def)
    have "rowPrediction ft bpp ofs len out i = rowPrediction ft bpp ofs len raw i"
    proof (rule rowPrediction_cong [OF _ i bpp])
      fix j assume "j < ofs + i"
      then show "out ! j = raw ! j"
        using less.IH [of j] i k by simp
    qed
    then show ?thesis
      using defiltered_nth [OF inv i] enc [OF i] k by simp
  qed
qed

lemma forLoop_length:
  "(\<And>i s. length (body i s) = length s) \<Longrightarrow> length (snd (forLoop i to body s)) = length s"
proof (induction i to body s rule: forLoop.induct)
  case (1 i to body s)
  show ?case
  proof (cases "of_nat i < to")
    case True
    have "length (snd (forLoop (Suc i) to body (body i s))) = length (body i s)"
      using "1.IH" [OF True] "1.prems" by simp
    then show ?thesis
      using True "1.prems" by (simp add: forLoop.simps [of i])
  next
    case False
    then show ?thesis
      by (simp add: forLoop.simps [of i])
  qed
qed

lemma forLoop_length_pair:
  "(\<And>i s. length (body i s) = length s) \<Longrightarrow> forLoop i to body s = (j, t) \<Longrightarrow> length t = length s"
  using forLoop_length [of body i to s] by simp

lemma unFilter_length:
  assumes "filterSwitch t = Some unFilter"
  shows "length (unFilter sc px bpp ofs len) = length px"
proof -
  from assms consider
      "unFilter = unFilterNone" | "unFilter = unFilterSub" | "unFilter = unFilterUp"
    | "unFilter = unFilterAverage" | "unFilter = unFilterPaeth"
    by (auto simp: filterSwitch_def split: if_splits)
  then show ?thesis
  proof cases
    case 1
    then show ?thesis
      by (simp add: unFilterNone_def forLoop_length)
  next
    case 2
    then show ?thesis
      by (auto simp: unFilterSub_def split: prod.splits dest!: forLoop_length_pair [rotated])
  next
    case 3
    then show ?thesis
      by (simp add: unFilterUp_def forLoop_length Let_def)
  next
    case 4
    then show ?thesis
      by (auto simp: unFilterAverage_def Let_def split: prod.splits
               dest!: forLoop_length_pair [rotated])
  next
    case 5
    then show ?thesis
      by (auto simp: unFilterPaeth_def Let_def split: prod.splits
               dest!: forLoop_length_pair [rotated])
  qed
qed

lemma relativeIndex_of_nat: "relativeIndex n (of_nat a) = min a n"
  by (simp add: relativeIndex_def)

lemma sliceArray_of_nat: "sliceArray xs (of_nat a) (of_nat b) = take (b - a) (drop a xs)"
proof (cases "a \<le> length xs")
  case True
  then show ?thesis
    by (simp add: sliceArray_def relativeIndex_of_nat min_def take_all)
next
  case False
  then show ?thesis
    by (simp add: sliceArray_def relativeIndex_of_nat)
qed

lemma length_pngFilterRow [simp]: "length (pngFilterRow ft bpp prior cur) = length cur"
  by (simp add: pngFilterRow_def)

lemma filter_type_byte: "ft \<le> 4 \<Longrightarrow> uint (of_nat ft :: byte) = int ft"
proof -
  assume "ft \<le> 4"
  then consider "ft = 0" | "ft = 1" | "ft = 2" | "ft = 3" | "ft = 4"
    by arith
  then show ?thesis
    by cases simp_all
qed

lemma filterSwitch_valid: "ft \<le> 4 \<Longrightarrow> \<exists>unFilter. filterSwitch (Some (int ft)) = Some unFilter"
  by (simp add: filterSwitch_def)

lemma pngFilterRow_rowPrediction:
  assumes raw: "raw = pre @ cur @ post" and cur: "length cur = len" and bpp: "1 \<le> bpp"
    and first: "length pre < len \<Longrightarrow> prior = replicate len 0"
    and later: "len \<le> length pre \<Longrightarrow> prior = drop (length pre - len) pre"
    and i: "i < len"
  shows "pngFilterRow ft bpp prior cur ! i
           = raw ! (length pre + i) - rowPrediction ft bpp (length pre) len raw i"
proof -
  let ?m = "length pre"
  have here: "raw ! (?m + j) = cur ! j" if "j < len" for j
    using that cur by (simp add: raw nth_append)
  have left: "raw ! (?m + i - bpp) = cur ! (i - bpp)" if "bpp \<le> i"
    using here [of "i - bpp"] that i by simp
  have up: "raw ! (?m + i - len) = prior ! i" if "len \<le> ?m"
  proof -
    have "?m + i - len < ?m" using that i by arith
    moreover have "?m - len + i = ?m + i - len" using that by simp
    ultimately show ?thesis
      using later [OF that] that i by (simp add: raw nth_append)
  qed
  have upleft: "raw ! (?m + i - len - bpp) = prior ! (i - bpp)" if "len \<le> ?m" and "bpp \<le> i"
  proof -
    have "?m + i - len - bpp < ?m" using that i by arith
    moreover have "?m - len + (i - bpp) = ?m + i - len - bpp" using that by simp
    ultimately show ?thesis
      using later [OF that(1)] that i by (simp add: raw nth_append del: diff_diff_left)
  qed
  have zero: "prior ! j = 0" if "?m < len" and "j < len" for j
    using first [OF that(1)] that(2) by simp
  have "pngFilterRow ft bpp prior cur ! i
          = cur ! i - pngPredictor ft (if i < bpp then 0 else cur ! (i - bpp)) (prior ! i)
                        (if i < bpp then 0 else prior ! (i - bpp))"
    using i cur by (simp add: pngFilterRow_def)
  also have "\<dots> = raw ! (?m + i) - rowPrediction ft bpp ?m len raw i"
  proof (cases "?m < len")
    case True
    then show ?thesis
      using here [OF i] left zero [OF True i] zero [OF True, of "i - bpp"] i
      by (simp add: rowPrediction_def)
  next
    case False
    then show ?thesis
      using here [OF i] left up upleft
      by (simp add: rowPrediction_def del: diff_diff_left)
  qed
  finally show ?thesis .
qed

lemma interlaceRows_rows:
  assumes bpp: "bytesPerPixel p = of_nat bpp" and len: "len = bpp * width p" and w: "1 \<le> width p"
  shows "(\<forall>(ft, row) \<in> set rows. ft \<le> 4 \<and> length row = len) \<Longrightarrow>
         raw = pre @ concat (map snd rows) \<Longrightarrow>
         length px = length raw \<Longrightarrow>
         (\<forall>k < length pre. px ! k = raw ! k) \<Longrightarrow>
         (length pre < len \<longrightarrow> prior = replicate len 0) \<Longrightarrow>
         (len \<le> length pre \<longrightarrow> prior = drop (length pre - len) pre) \<Longrightarrow>
         data = skipped @ pngFilterRows bpp prior rows \<Longrightarrow>
         interlaceRows p data (of_nat (length skipped)) (of_nat (length pre)) px = Inr raw"
proof (induction rows arbitrary: pre px prior skipped)
  case Nil
  then have "px = raw"
    by (intro nth_equalityI) simp_all
  then show ?case
    using Nil by (subst interlaceRows.simps) simp
next
  case (Cons fr rest)
  obtain ft cur where fr: "fr = (ft, cur)"
    by (cases fr)
  have bpp1: "1 \<le> bpp"
  proof -
    have "(1::rat) \<le> of_nat bpp"
      using bpp by (simp add: bytesPerPixel_def flip: bpp)
    then show ?thesis by simp
  qed
  have ft: "ft \<le> 4" and cur: "length cur = len"
    and rest: "\<forall>(ft, row) \<in> set rest. ft \<le> 4 \<and> length row = len"
    using Cons.prems(1) by (simp_all add: fr)
  have bl: "bpp \<le> len"
    using w by (simp add: len)
  let ?m = "length pre" and ?n = "length skipped"
  let ?sc = "pngFilterRow ft bpp prior cur"
  obtain unFilter where sw: "filterSwitch (Some (int ft)) = Some unFilter"
    using filterSwitch_valid [OF ft] by blast
  let ?px = "unFilter ?sc px (of_nat bpp) (of_nat ?m) (of_nat len)"
  have data: "data = skipped @ (of_nat ft # ?sc) @ pngFilterRows bpp cur rest"
    using Cons.prems(7) by (simp add: fr)
  have raw: "raw = pre @ cur @ concat (map snd rest)"
    using Cons.prems(2) by (simp add: fr)
  have fits: "?m + len \<le> length px"
    using Cons.prems(3) cur by (simp add: raw)
  have inv: "defiltered ft bpp ?m len ?sc px len ?px"
    using sw bpp1 bl _ fits by (rule filterSwitch_defiltered) (simp add: cur)
  have agree: "?px ! k = raw ! k" if "k < ?m + len" for k
  proof (rule defiltered_raw [OF inv bpp1 fits _ _ that])
    show "px ! k = raw ! k" if "k < ?m" for k
      using Cons.prems(4) that by simp
    show "?sc ! i = raw ! (?m + i) - rowPrediction ft bpp ?m len raw i" if "i < len" for i
      using raw cur bpp1 _ _ that
      by (rule pngFilterRow_rowPrediction) (use Cons.prems(5,6) in simp_all)
  qed
  have step: "interlaceRows p data (of_nat ?n) (of_nat ?m) px
        = interlaceRows p data (of_nat (length (skipped @ of_nat ft # ?sc)))
            (of_nat (length (pre @ cur))) ?px"
  proof -
    have less: "(of_nat ?n :: rat) < of_nat (length data)"
      by (simp add: data)
    have byte: "load data (of_nat ?n) = Some (int ft)"
      by (simp add: load_of_nat data filter_type_byte [OF ft])
    have "sliceArray data (of_nat ?n + 1) (of_nat ?n + of_nat len + 1)
            = sliceArray data (of_nat (?n + 1)) (of_nat (?n + len + 1))"
      by (simp add: ac_simps)
    also have "\<dots> = ?sc"
      by (simp only: sliceArray_of_nat) (simp add: data cur)
    finally have sl: "sliceArray data (of_nat ?n + 1) (of_nat ?n + of_nat len + 1) = ?sc" .
    have idx: "(of_nat ?n :: rat) + (of_nat len + 1) = of_nat (length (skipped @ of_nat ft # ?sc))"
      "(of_nat ?m :: rat) + of_nat len = of_nat (length (pre @ cur))"
      by (simp_all add: cur)
    have cpr: "(of_nat bpp :: rat) * of_nat (width p) = of_nat len"
      by (simp add: len)
    show ?thesis
      by (subst interlaceRows.simps)
         (simp only: Let_def cpr less if_True byte sw option.case sl idx bpp)
  qed
  have "interlaceRows p data (of_nat (length (skipped @ of_nat ft # ?sc)))
            (of_nat (length (pre @ cur))) ?px = Inr raw"
  proof (rule Cons.IH [OF rest])
    show "raw = (pre @ cur) @ concat (map snd rest)"
      by (simp add: raw)
    show "length ?px = length raw"
      using defiltered_length [OF inv] Cons.prems(3) by simp
    show "\<forall>k<length (pre @ cur). ?px ! k = raw ! k"
      using agree by (simp add: cur)
    show "length (pre @ cur) < len \<longrightarrow> cur = replicate len 0"
      by (simp add: cur)
    show "len \<le> length (pre @ cur) \<longrightarrow> cur = drop (length (pre @ cur) - len) (pre @ cur)"
      by (simp add: cur)
    show "data = (skipped @ of_nat ft # ?sc) @ pngFilterRows bpp cur rest"
      by (simp add: data)
  qed
  with step show ?case by simp
qed

lemma interlaceRows_empty_rows:
  assumes bpp: "bytesPerPixel p = of_nat bpp" and w: "width p = 0"
  shows "(\<forall>(ft, row) \<in> set rows. ft \<le> 4 \<and> length row = 0) \<Longrightarrow>
         data = skipped @ pngFilterRows bpp prior rows \<Longrightarrow>
         interlaceRows p data (of_nat (length skipped)) 0 [] = Inr []"
proof (induction rows arbitrary: skipped prior)
  case Nil
  then show ?case
    by (subst interlaceRows.simps) simp
next
  case (Cons fr rest)
  obtain ft cur where fr: "fr = (ft, cur)"
    by (cases fr)
  have ft: "ft \<le> 4" and cur: "cur = []"
    and rest: "\<forall>(ft, row) \<in> set rest. ft \<le> 4 \<and> length row = 0"
    using Cons.prems(1) by (simp_all add: fr)
  obtain unFilter where sw: "filterSwitch (Some (int ft)) = Some unFilter"
    using filterSwitch_valid [OF ft] by blast
  have data: "data = (skipped @ [of_nat ft]) @ pngFilterRows bpp cur rest"
    using Cons.prems(2) by (simp add: fr cur pngFilterRow_def)
  have less: "(of_nat (length skipped) :: rat) < of_nat (length data)"
    by (simp add: data)
  have byte: "load data (of_nat (length skipped)) = Some (int ft)"
    by (simp add: load_of_nat data filter_type_byte [OF ft])
  have empty: "unFilter sc [] b ofs l = []" for sc b ofs l
    using unFilter_length [OF sw, of sc "[]" b ofs l] by simp
  have idx: "(of_nat (length skipped) :: rat) + (0 + 1) = of_nat (length (skipped @ [of_nat ft :: byte]))"
    by simp
  have "interlaceRows p data (of_nat (length skipped)) 0 []
          = interlaceRows p data (of_nat (length (skipped @ [of_nat ft :: byte]))) 0 []"
    using less by (subst interlaceRows.simps) (simp add: Let_def w byte sw empty add.commute)
  also have "\<dots> = Inr []"
    using rest data by (rule Cons.IH)
  finally show ?case .
qed

lemma length_concat_rows:
  "(\<forall>(ft, row) \<in> set rows. ft \<le> (4::nat) \<and> length row = len) \<Longrightarrow>
     length (concat (map snd rows)) = len * length rows"
  by (induction rows) auto

lemma interlaceRows_round_trip:
  assumes bpp: "bytesPerPixel p = of_nat bpp"
    and rows: "\<forall>(ft, row) \<in> set rows. ft \<le> 4 \<and> length row = bpp * width p"
    and px: "length px = bpp * width p * length rows"
  shows "interlaceRows p (pngFilter bpp (bpp * width p) rows) 0 0 px = Inr (concat (map snd rows))"
proof (cases "width p = 0")
  case True
  have "interlaceRows p ([] @ pngFilterRows bpp (replicate (bpp * width p) 0) rows)
          (of_nat (length ([] :: byte list))) 0 [] = Inr []"
    using bpp True by (rule interlaceRows_empty_rows) (use rows True in simp_all)
  moreover have "px = []" and "concat (map snd rows) = []"
    using px rows True by auto
  ultimately show ?thesis
    by (simp add: pngFilter_def)
next
  case False
  let ?len = "bpp * width p"
  have "interlaceRows p (pngFilter bpp ?len rows) (of_nat (length ([] :: byte list)))
          (of_nat (length ([] :: byte list))) px = Inr (concat (map snd rows))"
  proof (rule interlaceRows_rows [OF bpp refl _ rows])
    show "1 \<le> width p"
      using False by simp
    show "concat (map snd rows) = [] @ concat (map snd rows)"
      by simp
    show "length px = length (concat (map snd rows))"
      using length_concat_rows [OF rows] px by simp
    show "\<forall>k<length []. px ! k = concat (map snd rows) ! k"
      by simp
    show "length [] < ?len \<longrightarrow> replicate ?len 0 = replicate ?len (0 :: byte)"
      by simp
    have "1 \<le> bpp"
    proof -
      have "(1::rat) \<le> of_nat bpp"
        using bpp by (simp add: bytesPerPixel_def flip: bpp)
      then show ?thesis by simp
    qed
    then show "?len \<le> length [] \<longrightarrow> replicate ?len (0 :: byte) = drop (length [] - ?len) []"
      using False by simp
    show "pngFilter bpp ?len rows = [] @ pngFilterRows bpp (replicate ?len 0) rows"
      by (simp add: pngFilter_def)
  qed
  then show ?thesis
    by simp
qed

lemma bufferAlloc_of_nat: "bufferAlloc (of_nat n) = replicate n 0"
  by (simp add: bufferAlloc_def)

text \<open>Every \<open>bpp \<ge> 1\<close> is the number of bytes per pixel of some header.\<close>

lemma bytesPerPixel_whole:
  "1 \<le> bpp \<Longrightarrow> colors p * bitDepth p = 8 * bpp \<Longrightarrow> bytesPerPixel p = of_nat bpp"
  by (simp add: bytesPerPixel_def max_def)

text \<open>
  C1. Take any image of rows of \<open>bpp * width\<close> raw bytes, \<open>bpp \<ge> 1\<close> being the
  bytes per pixel of the header, each row with a filter type from 0 to 4, and filter it
  as the PNG standard prescribes. The loop of
  \<open>interlaceNone\<close>, which hands the filtered rows in order to \<open>unFilterNone\<close>,
  \<open>unFilterSub\<close>, \<open>unFilterUp\<close>, \<open>unFilterAverage\<close> and \<open>unFilterPaeth\<close> with the offset
  grown by \<open>cpr\<close> per row, turns any buffer of the size of the image into the raw
  bytes; and \<open>interlaceNone\<close> itself, when the header has the height of the image, stores
  the raw bytes as the pixels.
\<close>

theorem defilter_inverts_filter:
  assumes "bytesPerPixel p = of_nat bpp"
    and "\<forall>(ft, row) \<in> set rows. ft \<le> 4 \<and> length row = bpp * width p"
  shows "1 \<le> bpp \<and>
         (\<forall>px. length px = bpp * width p * length rows \<longrightarrow>
            interlaceRows p (pngFilter bpp (bpp * width p) rows) 0 0 px
              = Inr (concat (map snd rows))) \<and>
         (\<forall>r. png r = p \<and> height p = length rows \<longrightarrow>
            interlaceNone (pngFilter bpp (bpp * width p) rows) r
              = (None, r\<lparr>png := p\<lparr>pixels := Some (concat (map snd rows))\<rparr>\<rparr>))"
proof (intro conjI allI impI)
  have "(1::rat) \<le> of_nat bpp"
    using assms(1) by (simp add: bytesPerPixel_def flip: assms(1))
  then show "1 \<le> bpp" by simp
next
  fix px :: "byte list"
  assume "length px = bpp * width p * length rows"
  with assms show "interlaceRows p (pngFilter bpp (bpp * width p) rows) 0 0 px
                     = Inr (concat (map snd rows))"
    by (rule interlaceRows_round_trip)
next
  fix r :: PNGReader
  assume r: "png r = p \<and> height p = length rows"
  have "of_nat bpp * of_nat (width p) * of_nat (length rows) = (of_nat (bpp * width p * length rows) :: rat)"
    by simp
  then have alloc: "bufferAlloc (bytesPerPixel p * of_nat (width p) * of_nat (height p))
                = replicate (bpp * width p * length rows) 0"
    using r by (simp only: assms(1) bufferAlloc_of_nat)
  have "interlaceRows p (pngFilter bpp (bpp * width p) rows) 0 0
          (replicate (bpp * width p * length rows) 0) = Inr (concat (map snd rows))"
    using assms by (rule interlaceRows_round_trip) simp
  then show "interlaceNone (pngFilter bpp (bpp * width p) rows) r
               = (None, r\<lparr>png := p\<lparr>pixels := Some (concat (map snd rows))\<rparr>\<rparr>)"
    using r alloc by (simp add: interlaceNone_def Let_def setPixels_def)
qed

theorem defilter_inverts_filter_witness:
  "bytesPerPixel (newPNG\<lparr>width := 2, height := 2, bitDepth := 8, colors := 1\<rparr>) = of_nat 1 \<and>
   pngFilter 1 2 [(1, [10, 30]), (4, [20, 25])] = [1, 10, 20, 4, 10, 251] \<and>
   interlaceRows (newPNG\<lparr>width := 2, height := 2, bitDepth := 8, colors := 1\<rparr>)
     [1, 10, 20, 4, 10, 251] 0 0 [0, 0, 0, 0] = Inr [10, 30, 20, 25]"
proof -
  let ?p = "newPNG\<lparr>width := 2, height := 2, bitDepth := 8, colors := 1\<rparr>"
  have b: "bytesPerPixel ?p = of_nat 1"
    by (simp add: bytesPerPixel_def newPNG_def)
  have f: "pngFilter 1 2 [(1, [10, 30]), (4, [20, 25])] = [1, 10, 20, 4, 10, 251]"
    by code_simp
  have w: "width ?p = 2"
    by (simp add: newPNG_def)
  have "interlaceRows ?p (pngFilter 1 (1 * width ?p) [(1, [10, 30]), (4, [20, 25])]) 0 0 [0, 0, 0, 0]
          = Inr (concat (map snd [(1 :: nat, [10, 30 :: byte]), (4, [20, 25])]))"
    using defilter_inverts_filter [where p = "?p" and bpp = 1
            and rows = "[(1, [10, 30]), (4, [20, 25])]"] b
    by (simp add: w)
  then show ?thesis
    using b f by (simp add: w)
qed

section \<open>Adam7\<close>

text \<open>
  C9 as stated fails: \<open>decodePixels\<close> inflates the data before it looks at the interlace
  method. \<open>adam7EmptyPNG\<close> declares Adam7 interlacing and has no \<open>IDAT\<close> chunk; its
  decoding fails with the error of the decompressor, not with 'Adam7 interlacing is not
  implemented yet'.
\<close>

theorem adam7_inflate_error_first:
  "decodePixels zlibSample
     \<lparr> bytes = adam7EmptyPNG, pos = 45,
       png = \<lparr> width = 1, height = 1, bitDepth = 8, colorType = 0,
               compressionMethod = 0, filterMethod = 0, interlaceMethod = 1,
               colors = 1, alpha = False, palette = [],
               pixels = Some [], trns = Some [] \<rparr>,
       dataChunks = [], header = Some [137, 80, 78, 71, 13, 10, 26, 10] \<rparr>
     = (Some InflateError,
        \<lparr> bytes = adam7EmptyPNG, pos = 45,
          png = \<lparr> width = 1, height = 1, bitDepth = 8, colorType = 0,
                  compressionMethod = 0, filterMethod = 0, interlaceMethod = 1,
                  colors = 1, alpha = False, palette = [],
                  pixels = Some [], trns = Some [] \<rparr>,
          dataChunks = [], header = Some [137, 80, 78, 71, 13, 10, 26, 10] \<rparr>) \<and>
   ebind (decodeHeader (newPNGReader adam7EmptyPNG)) (chunkLoop True) =
     Inr \<lparr> bytes = adam7EmptyPNG, pos = 45,
           png = \<lparr> width = 1, height = 1, bitDepth = 8, colorType = 0,
                   compressionMethod = 0, filterMethod = 0, interlaceMethod = 1,
                   colors = 1, alpha = False, palette = [],
                   pixels = Some [], trns = Some [] \<rparr>,
           dataChunks = [], header = Some [137, 80, 78, 71, 13, 10, 26, 10] \<rparr> \<and>
   parse zlibSample True (newPNGReader adam7EmptyPNG) = Inl InflateError"
  by code_simp

text \<open>
  What a run of \<open>interlaceNone\<close> leaves behind: it either throws 'unknown filtered
  scanline' or stores a buffer as the pixels, of the size the header gives.
\<close>

lemma interlaceRows_length:
  "interlaceRows p data i offset px = Inr px' \<Longrightarrow> length px' = length px"
proof (induction p data i offset px rule: interlaceRows.induct)
  case (1 p data i offset px)
  show ?case
  proof (cases "i < of_nat (length data)")
    case False
    then show ?thesis
      using "1.prems" by (subst (asm) interlaceRows.simps) simp
  next
    case True
    let ?bpp = "bytesPerPixel p"
    let ?cpr = "?bpp * of_nat (width p)"
    let ?sc = "sliceArray data (i + 1) (i + ?cpr + 1)"
    obtain unFilter where sw: "filterSwitch (load data i) = Some unFilter"
      using "1.prems" True
      by (subst (asm) interlaceRows.simps) (auto simp: Let_def split: option.splits)
    have "interlaceRows p data (i + (?cpr + 1)) (offset + ?cpr)
            (unFilter ?sc px ?bpp offset ?cpr) = Inr px'"
      using "1.prems" True sw by (subst (asm) interlaceRows.simps) (simp add: Let_def)
    then have "length px' = length (unFilter ?sc px ?bpp offset ?cpr)"
      using "1.IH" [OF refl refl True refl sw] by simp
    then show ?thesis
      by (simp add: unFilter_length [OF sw])
  qed
qed

lemma interlaceRows_error: "interlaceRows p data i offset px = Inl e \<Longrightarrow> e = UnknownFilter"
proof (induction p data i offset px rule: interlaceRows.induct)
  case (1 p data i offset px)
  show ?case
  proof (cases "i < of_nat (length data)")
    case False
    then show ?thesis
      using "1.prems" by (subst (asm) interlaceRows.simps) simp
  next
    case True
    show ?thesis
    proof (cases "filterSwitch (load data i)")
      case None
      then show ?thesis
        using "1.prems" True by (subst (asm) interlaceRows.simps) (simp add: Let_def)
    next
      case (Some unFilter)
      then show ?thesis
        using "1.prems" True "1.IH" [OF refl refl True refl Some]
        by (subst (asm) interlaceRows.simps) (simp add: Let_def)
    qed
  qed
qed

lemma interlaceNone_outcome:
  "interlaceNone data r = (Some UnknownFilter, r) \<or>
   (\<exists>px. length px = nat \<lfloor>bytesPerPixel (png r) * of_nat (width (png r)) * of_nat (height (png r))\<rfloor> \<and>
         interlaceNone data r = (None, r\<lparr>png := (png r)\<lparr>pixels := Some px\<rparr>\<rparr>))"
proof (cases "interlaceRows (png r) data 0 0
                (bufferAlloc (bytesPerPixel (png r) * of_nat (width (png r)) * of_nat (height (png r))))")
  case (Inl e)
  then show ?thesis
    using interlaceRows_error [OF Inl] by (simp add: interlaceNone_def Let_def)
next
  case (Inr px)
  have "length px = nat \<lfloor>bytesPerPixel (png r) * of_nat (width (png r)) * of_nat (height (png r))\<rfloor>"
    using interlaceRows_length [OF Inr] by (simp add: bufferAlloc_def)
  moreover have "interlaceNone data r = (None, r\<lparr>png := (png r)\<lparr>pixels := Some px\<rparr>\<rparr>)"
    using Inr by (simp add: interlaceNone_def Let_def setPixels_def)
  ultimately show ?thesis
    by blast
qed

text \<open>
  C9, amended. For a reader whose header has interlace method 1, \<open>decodePixels\<close> fails
  and leaves the reader and its \<open>PNG\<close> exactly as they were, so no raster is stored:
  with the error of the decompressor when the data does not inflate, and with 'Adam7
  interlacing is not implemented yet' when it does, whatever the inflated data is.
  \<open>interlaceAdam7\<close> looks at neither its data nor the reader. No scanline is defiltered
  on the way: what a run of \<open>interlaceNone\<close> would leave, the error 'unknown filtered
  scanline' or a changed reader, occurs with interlace method 0 only, and so does the
  return of \<open>decodePixels\<close>, whose outcome is then that of \<open>interlaceNone\<close> on the
  inflated data.
\<close>

theorem decodePixels_adam7:
  "(interlaceMethod (png r) = 1 \<longrightarrow>
      decodePixels inflate r =
        (case inflate (concat (dataChunks r)) of
           None \<Rightarrow> (Some InflateError, r)
         | Some inflated \<Rightarrow> (Some Adam7NotImplemented, r)) \<and>
      snd (decodePixels inflate r) = r \<and>
      pixels (png (snd (decodePixels inflate r))) = pixels (png r)) \<and>
   (\<forall>data r. interlaceAdam7 data r = (Some Adam7NotImplemented, r)) \<and>
   (fst (decodePixels inflate r) = Some UnknownFilter \<or> snd (decodePixels inflate r) \<noteq> r \<or>
    fst (decodePixels inflate r) = None \<longrightarrow>
      interlaceMethod (png r) = 0 \<and>
      (\<exists>inflated. inflate (concat (dataChunks r)) = Some inflated \<and>
                  decodePixels inflate r = interlaceNone inflated r)) \<and>
   (interlaceMethod (png r) \<noteq> 0 \<longrightarrow>
      (\<forall>data r'. decodePixels inflate r \<noteq> interlaceNone data r'))"
proof -
  have "decodePixels inflate r \<noteq> interlaceNone data r'"
    if "interlaceMethod (png r) \<noteq> 0" for data r'
    using that interlaceNone_outcome [of data r']
    by (auto simp: decodePixels_def interlaceAdam7_def Let_def split: option.splits)
  then show ?thesis
    by (auto simp: decodePixels_def interlaceAdam7_def Let_def split: option.splits)
qed

theorem decodePixels_adam7_witness:
  "interlaceMethod (png \<lparr> bytes = adam7PNG, pos = 67,
       png = \<lparr> width = 1, height = 1, bitDepth = 8, colorType = 0,
               compressionMethod = 0, filterMethod = 0, interlaceMethod = 1,
               colors = 1, alpha = False, palette = [],
               pixels = Some [], trns = Some [] \<rparr>,
       dataChunks = [[120, 156, 99, 104, 0, 0, 0, 130, 0, 129]],
       header = Some [137, 80, 78, 71, 13, 10, 26, 10] \<rparr>) = 1 \<and>
   zlibSample [120, 156, 99, 104, 0, 0, 0, 130, 0, 129] = Some [0, 128] \<and>
   decodePixels zlibSample \<lparr> bytes = adam7PNG, pos = 67,
       png = \<lparr> width = 1, height = 1, bitDepth = 8, colorType = 0,
               compressionMethod = 0, filterMethod = 0, interlaceMethod = 1,
               colors = 1, alpha = False, palette = [],
               pixels = Some [], trns = Some [] \<rparr>,
       dataChunks = [[120, 156, 99, 104, 0, 0, 0, 130, 0, 129]],
       header = Some [137, 80, 78, 71, 13, 10, 26, 10] \<rparr>
     = (Some Adam7NotImplemented,
        \<lparr> bytes = adam7PNG, pos = 67,
          png = \<lparr> width = 1, height = 1, bitDepth = 8, colorType = 0,
                  compressionMethod = 0, filterMethod = 0, interlaceMethod = 1,
                  colors = 1, alpha = False, palette = [],
                  pixels = Some [], trns = Some [] \<rparr>,
          dataChunks = [[120, 156, 99, 104, 0, 0, 0, 130, 0, 129]],
          header = Some [137, 80, 78, 71, 13, 10, 26, 10] \<rparr>) \<and>
   interlaceNone [0, 128] \<lparr> bytes = adam7PNG, pos = 67,
       png = \<lparr> width = 1, height = 1, bitDepth = 8, colorType = 0,
               compressionMethod = 0, filterMethod = 0, interlaceMethod = 1,
               colors = 1, alpha = False, palette = [],
               pixels = Some [], trns = Some [] \<rparr>,
       dataChunks = [[120, 156, 99, 104, 0, 0, 0, 130, 0, 129]],
       header = Some [137, 80, 78, 71, 13, 10, 26, 10] \<rparr>
     = (None,
        \<lparr> bytes = adam7PNG, pos = 67,
          png = \<lparr> width = 1, height = 1, bitDepth = 8, colorType = 0,
                  compressionMethod = 0, filterMethod = 0, interlaceMethod = 1,
                  colors = 1, alpha = False, palette = [],
                  pixels = Some [128], trns = Some [] \<rparr>,
          dataChunks = [[120, 156, 99, 104, 0, 0, 0, 130, 0, 129]],
          header = Some [137, 80, 78, 71, 13, 10, 26, 10] \<rparr>) \<and>
   fst (decodePixels zlibSample \<lparr> bytes = samplePNG, pos = 67,
       png = \<lparr> width = 1, height = 1, bitDepth = 8, colorType = 0,
               compressionMethod = 0, filterMethod = 0, interlaceMethod = 0,
               colors = 1, alpha = False, palette = [],
               pixels = Some [], trns = Some [] \<rparr>,
       dataChunks = [[120, 156, 99, 104, 0, 0, 0, 130, 0, 129]],
       header = Some [137, 80, 78, 71, 13, 10, 26, 10] \<rparr>) = None"
proof -
  let ?r = "\<lparr> bytes = adam7PNG, pos = 67,
       png = \<lparr> width = 1, height = 1, bitDepth = 8, colorType = 0,
               compressionMethod = 0, filterMethod = 0, interlaceMethod = 1,
               colors = 1, alpha = False, palette = [],
               pixels = Some [], trns = Some [] \<rparr>,
       dataChunks = [[120, 156, 99, 104, 0, 0, 0, 130, 0, 129]],
       header = Some [137, 80, 78, 71, 13, 10, 26, 10] \<rparr>"
  let ?s = "\<lparr> bytes = samplePNG, pos = 67,
       png = \<lparr> width = 1, height = 1, bitDepth = 8, colorType = 0,
               compressionMethod = 0, filterMethod = 0, interlaceMethod = 0,
               colors = 1, alpha = False, palette = [],
               pixels = Some [], trns = Some [] \<rparr>,
       dataChunks = [[120, 156, 99, 104, 0, 0, 0, 130, 0, 129]],
       header = Some [137, 80, 78, 71, 13, 10, 26, 10] \<rparr>"
  have z: "zlibSample [120, 156, 99, 104, 0, 0, 0, 130, 0, 129] = Some [0, 128]"
    by (simp add: zlibSample_def inflateTable_def)
  have n: "interlaceNone [0, 128] ?r
     = (None,
        \<lparr> bytes = adam7PNG, pos = 67,
          png = \<lparr> width = 1, height = 1, bitDepth = 8, colorType = 0,
                  compressionMethod = 0, filterMethod = 0, interlaceMethod = 1,
                  colors = 1, alpha = False, palette = [],
                  pixels = Some [128], trns = Some [] \<rparr>,
          dataChunks = [[120, 156, 99, 104, 0, 0, 0, 130, 0, 129]],
          header = Some [137, 80, 78, 71, 13, 10, 26, 10] \<rparr>)"
    by code_simp
  have s: "fst (decodePixels zlibSample ?s) = None"
    by code_simp
  have "decodePixels zlibSample ?r = (Some Adam7NotImplemented, ?r)"
    using decodePixels_adam7 [of ?r zlibSample] z by simp
  then show ?thesis
    using z n s by simp
qed

end
